theory Spec2Isabelle
  imports Main "HOL-Library.Sublist"
begin

section \<open>Strings of the device protocol\<close>

text \<open>
  The client of \<^verbatim>\<open>src/lib/totp-client/totp-client.ts\<close> handles the text a serial device
  sends. A JavaScript string is a sequence of code units; the model uses \<^typ>\<open>string\<close>,
  one \<^typ>\<open>char\<close> for each code unit in the range 0..255, which is what a serial line
  carries. The character classes of the regular expressions are read on that range.
\<close>

abbreviation CR :: char where "CR \<equiv> CHR 0x0D"
abbreviation LF :: char where "LF \<equiv> CHR 0x0A"
abbreviation ESC :: char where "ESC \<equiv> CHR 0x1B"

text \<open>\<^verbatim>\<open>\d\<close>: the decimal digits.\<close>

definition isDigit :: "char \<Rightarrow> bool" where
  "isDigit c = (48 \<le> (of_char c :: nat) \<and> (of_char c :: nat) \<le> 57)"

text \<open>\<^verbatim>\<open>\w\<close>, the class behind \<^verbatim>\<open>\b\<close>: letters, digits and the underscore.\<close>

definition isWordChar :: "char \<Rightarrow> bool" where
  "isWordChar c =
     (let n = (of_char c :: nat)
      in (97 \<le> n \<and> n \<le> 122) \<or> (65 \<le> n \<and> n \<le> 90) \<or> (48 \<le> n \<and> n \<le> 57) \<or> n = 95)"

text \<open>
  The line terminators of \<^verbatim>\<open>^\<close> and \<^verbatim>\<open>$\<close> under the \<^verbatim>\<open>m\<close> flag: line feed and
  carriage return (U+2028 and U+2029 lie outside the modelled range).
\<close>

definition isLineTerminator :: "char \<Rightarrow> bool" where
  "isLineTerminator c = (c = LF \<or> c = CR)"

text \<open>
  \<^verbatim>\<open>\s\<close>: tab, line feed, vertical tab, form feed, carriage return, space and the
  no-break space U+00A0.
\<close>

definition isSpace :: "char \<Rightarrow> bool" where
  "isSpace c =
     (let n = (of_char c :: nat)
      in (9 \<le> n \<and> n \<le> 13) \<or> n = 32 \<or> n = 160)"

text \<open>\<^verbatim>\<open>s.startsWith(t)\<close>, used to read a literal at the current position.\<close>

definition startsWith :: "string \<Rightarrow> string \<Rightarrow> bool" where
  "startsWith s t = (take (length t) s = t)"

text \<open>
  \<^verbatim>\<open>s.indexOf(t)\<close>: the least position at which \<open>t\<close> occurs in \<open>s\<close>; \<open>None\<close> stands
  for JavaScript's \<^verbatim>\<open>-1\<close>. The empty string occurs at position 0 of every string.
\<close>

fun indexOf :: "string \<Rightarrow> string \<Rightarrow> nat option" where
  "indexOf [] t = (if t = [] then Some 0 else None)"
| "indexOf (x # xs) t =
     (if startsWith (x # xs) t then Some 0 else map_option Suc (indexOf xs t))"

text \<open>\<^verbatim>\<open>s.includes(t)\<close>.\<close>

definition includesStr :: "string \<Rightarrow> string \<Rightarrow> bool" where
  "includesStr s t = (indexOf s t \<noteq> None)"

text \<open>
  \<^verbatim>\<open>s.replace(t, '')\<close> for a string pattern \<open>t\<close>: JavaScript replaces the first
  occurrence only, and leaves \<open>s\<close> alone when there is none.
\<close>

definition replaceString :: "string \<Rightarrow> string \<Rightarrow> string" where
  "replaceString s t =
     (case indexOf s t of
        None \<Rightarrow> s
      | Some i \<Rightarrow> take i s @ drop (i + length t) s)"

subsection \<open>The terminal control pattern\<close>

text \<open>
  Line 125 erases every match of \<^verbatim>\<open>/(\x1b\[(\d+m|A|2K))|(\b \b)\r?/g\<close>.
  The first alternative is an escape character and an opening bracket, followed by one or more digits
  and \<open>m\<close>, or by \<open>A\<close>, or by \<open>2K\<close>. \<open>escapeSequence s\<close> is the length of its match
  at the head of \<open>s\<close>. The digits are taken greedily; giving one back never helps, since the
  character after a shorter run is a digit, not \<open>m\<close>.
\<close>

definition escapeSequence :: "string \<Rightarrow> nat option" where
  "escapeSequence s =
     (if startsWith s [ESC, CHR ''[''] then
        (let rest = drop 2 s; ds = takeWhile isDigit rest
         in if ds \<noteq> [] \<and> startsWith (drop (length ds) rest) ''m'' then Some (2 + length ds + 1)
            else if startsWith rest ''A'' then Some 3
            else if startsWith rest ''2K'' then Some 4
            else None)
      else None)"

text \<open>
  \<^verbatim>\<open>\b\<close> holds between two positions exactly when one side is a word character and the
  other is not; the start and the end of the text count as not a word character.
\<close>

definition isWordOpt :: "char option \<Rightarrow> bool" where
  "isWordOpt c = (case c of None \<Rightarrow> False | Some x \<Rightarrow> isWordChar x)"

definition wordBoundary :: "char option \<Rightarrow> char option \<Rightarrow> bool" where
  "wordBoundary before after = (isWordOpt before \<noteq> isWordOpt after)"

definition headOpt :: "string \<Rightarrow> char option" where
  "headOpt s = (case s of [] \<Rightarrow> None | c # _ \<Rightarrow> Some c)"

text \<open>
  The second alternative, \<^verbatim>\<open>(\b \b)\r?\<close>: a word boundary, a space, a word boundary and
  an optional carriage return. \<open>prev\<close> is the character before the position.
\<close>

definition eraseSequence :: "char option \<Rightarrow> string \<Rightarrow> nat option" where
  "eraseSequence prev s =
     (case s of
        [] \<Rightarrow> None
      | c # rest \<Rightarrow>
          if c = CHR '' '' \<and> wordBoundary prev (Some c) \<and> wordBoundary (Some c) (headOpt rest)
          then Some (if startsWith rest [CR] then 2 else 1)
          else None)"

definition controlMatch :: "char option \<Rightarrow> string \<Rightarrow> nat option" where
  "controlMatch prev s =
     (case escapeSequence s of
        Some n \<Rightarrow> Some n
      | None \<Rightarrow> eraseSequence prev s)"

text \<open>
  The \<^verbatim>\<open>g\<close> flag: scan from the left, drop each match and go on behind it. Every match of
  this pattern has at least one character.
\<close>

fun replaceControl :: "char option \<Rightarrow> string \<Rightarrow> string" where
  "replaceControl prev [] = []"
| "replaceControl prev (c # cs) =
     (case controlMatch prev (c # cs) of
        Some (Suc n) \<Rightarrow> replaceControl (Some (last (take (Suc n) (c # cs)))) (drop n cs)
      | _ \<Rightarrow> c # replaceControl (Some c) cs)"

subsection \<open>The blank line pattern\<close>

text \<open>
  Line 129 erases every match of \<^verbatim>\<open>/^\s*\r?\n?$/gm\<close>. With the \<^verbatim>\<open>m\<close> flag,
  \<^verbatim>\<open>^\<close> holds at the start of the text and behind a line terminator, \<^verbatim>\<open>$\<close> at the
  end of the text and before a line terminator.
\<close>

definition atLineStart :: "char option \<Rightarrow> bool" where
  "atLineStart prev = (case prev of None \<Rightarrow> True | Some c \<Rightarrow> isLineTerminator c)"

definition atLineEnd :: "string \<Rightarrow> bool" where
  "atLineEnd s = (case s of [] \<Rightarrow> True | c # _ \<Rightarrow> isLineTerminator c)"

text \<open>
  \<^verbatim>\<open>\r?\n?$\<close> at the head of \<open>s\<close>, in the order in which backtracking tries it: both
  optional characters taken, then the line feed given back, then the carriage return.
\<close>

definition blankTail :: "string \<Rightarrow> nat option" where
  "blankTail s =
     (let r = (if startsWith s [CR] then 1 else 0 :: nat);
          n1 = (if startsWith (drop r s) [LF] then 1 else 0 :: nat);
          n0 = (if startsWith s [LF] then 1 else 0 :: nat)
      in if atLineEnd (drop (r + n1) s) then Some (r + n1)
         else if atLineEnd (drop r s) then Some r
         else if atLineEnd (drop n0 s) then Some n0
         else if atLineEnd s then Some 0
         else None)"

text \<open>
  \<^verbatim>\<open>\s*\<close> is greedy: it first takes \<open>k\<close> characters, the whole run of white space, and
  gives them back one at a time until the rest of the pattern matches.
\<close>

fun blankBacktrack :: "nat \<Rightarrow> string \<Rightarrow> nat option" where
  "blankBacktrack 0 s = blankTail s"
| "blankBacktrack (Suc k) s =
     (case blankTail (drop (Suc k) s) of
        Some j \<Rightarrow> Some (Suc k + j)
      | None \<Rightarrow> blankBacktrack k s)"

definition blankMatch :: "char option \<Rightarrow> string \<Rightarrow> nat option" where
  "blankMatch prev s =
     (if atLineStart prev then blankBacktrack (length (takeWhile isSpace s)) s else None)"

text \<open>
  The \<^verbatim>\<open>g\<close> flag again. This pattern also matches the empty string; behind an empty
  match the search moves on by one character, which stays in the text.
\<close>

fun replaceBlank :: "char option \<Rightarrow> string \<Rightarrow> string" where
  "replaceBlank prev [] = []"
| "replaceBlank prev (c # cs) =
     (case blankMatch prev (c # cs) of
        Some (Suc n) \<Rightarrow> replaceBlank (Some (last (take (Suc n) (c # cs)))) (drop n cs)
      | _ \<Rightarrow> c # replaceBlank (Some c) cs)"

section \<open>The client and its environment\<close>

subsection \<open>Constants, events and transports\<close>

text \<open>
  The file \<^verbatim>\<open>./constants\<close> that the client imports is not part of the sources at hand.
  Its literals are parameters of the model, under the names the client imports them by.
  The four event names are taken to be distinct.
\<close>

record constants =
  TotpCommand :: string
  FlipperCliEndOfCommand :: string
  FlipperVendorId :: string
  FlipperProductId :: string
  TotpAskForPin :: string
  TotpCommandCancelled :: string
  FlipperCliCommandNotFound :: string

datatype event =
    TotpEventNameConnecting
  | TotpEventNameConnected
  | TotpEventNamePinRequested
  | TotpEventNameClose

text \<open>An entry of \<^verbatim>\<open>SerialPort.list()\<close>; the identifiers may be undefined.\<close>

record port_info =
  path :: string
  vendorId :: "string option"
  productId :: "string option"

text \<open>
  A \<^verbatim>\<open>SerialPort\<close> object. \<open>port_id\<close> is the identity of the object: every
  \<^verbatim>\<open>new SerialPort\<close> makes a fresh one.
\<close>

record serial_port =
  port_id :: nat
  port_path :: string
  baudRate :: nat

datatype error = Timeout | Failure string

text \<open>The terminator handed to \<^verbatim>\<open>readUntil\<close>: a string, or a pattern (source and flags).\<close>

datatype terminator = Literal string | RegExp string string

text \<open>What the client does to the world around it, in the order in which it does it.\<close>

datatype action =
    Emit event
  | Delay nat
  | ListPorts
  | OpenPort serial_port
  | ClosePort serial_port
  | WriteAndDrain serial_port string
  | ReadUntil serial_port terminator "nat option"
  | OnClose serial_port

subsection \<open>The world\<close>

text \<open>
  The state of one client and of its environment. \<open>serialPort\<close> is the private field
  \<^verbatim>\<open>#serialPort\<close> (line 36). \<open>observed\<close> lists the transports that carry the
  client's \<^verbatim>\<open>close\<close> listener, \<open>live\<close> the transports that are open, \<open>fresh\<close> the
  identity of the next transport object, \<open>trace\<close> the actions so far.

  The remaining fields script the environment: each asynchronous primitive takes the
  next entry of its queue as the way its promise settles (for \<open>opens\<close>,
  \<open>writes\<close> and \<open>closes\<close>, \<open>None\<close> is success). A primitive that finds its queue
  empty never settles. \<open>drops\<close> has one entry for each \<^verbatim>\<open>await\<close>: \<open>True\<close> when
  the device is unplugged while the client waits.
\<close>

record world =
  serialPort :: "serial_port option"
  observed :: "serial_port list"
  live :: "serial_port list"
  fresh :: nat
  trace :: "action list"
  lists :: "(error + port_info list) list"
  opens :: "error option list"
  reads :: "(error + string option) list"
  writes :: "error option list"
  closes :: "error option list"
  drops :: "bool list"

text \<open>
  How an asynchronous function ends: it returns, it raises, or it is still waiting when
  the script of the environment is used up.
\<close>

datatype 'a outcome = Returned 'a world | Raised error world | Pending world

fun final :: "'a outcome \<Rightarrow> world" where
  "final (Returned x w) = w"
| "final (Raised e w) = w"
| "final (Pending w) = w"

text \<open>\<^verbatim>\<open>await\<close> followed by the rest of the function: an error or a wait ends it.\<close>

definition andThen :: "'a outcome \<Rightarrow> ('a \<Rightarrow> world \<Rightarrow> 'b outcome) \<Rightarrow> 'b outcome" where
  "andThen m f =
     (case m of
        Returned x w \<Rightarrow> f x w
      | Raised e w \<Rightarrow> Raised e w
      | Pending w \<Rightarrow> Pending w)"

definition perform :: "action \<Rightarrow> world \<Rightarrow> world" where
  "perform a w = w\<lparr>trace := trace w @ [a]\<rparr>"

text \<open>
  A transport that closes emits \<^verbatim>\<open>close\<close>; the listener of lines 77 to 79 then clears
  the field, whatever it holds.
\<close>

definition portClosed :: "serial_port \<Rightarrow> world \<Rightarrow> world" where
  "portClosed p w =
     (if p \<in> set (live w)
      then w\<lparr>serialPort := (if p \<in> set (observed w) then None else serialPort w),
             live := removeAll p (live w)\<rparr>
      else w)"

text \<open>Unplugging the device closes every open transport.\<close>

definition hangup :: "world \<Rightarrow> world" where
  "hangup w =
     w\<lparr>serialPort := (if \<exists>p \<in> set (live w). p \<in> set (observed w) then None else serialPort w),
       live := []\<rparr>"

definition settle :: "world \<Rightarrow> world" where
  "settle w =
     (case drops w of
        [] \<Rightarrow> w
      | d # ds \<Rightarrow> (if d then hangup (w\<lparr>drops := ds\<rparr>) else w\<lparr>drops := ds\<rparr>))"

subsection \<open>The primitives the client awaits\<close>

text \<open>\<^verbatim>\<open>this.emit(name, this)\<close>; no listener is modelled.\<close>

definition emit :: "event \<Rightarrow> world \<Rightarrow> world" where
  "emit e w = perform (Emit e) w"

text \<open>\<^verbatim>\<open>await delay(ms)\<close>: a timer always fires.\<close>

definition delay :: "nat \<Rightarrow> world \<Rightarrow> world" where
  "delay ms w = settle (perform (Delay ms) w)"

text \<open>\<^verbatim>\<open>await SerialPort.list()\<close>.\<close>

definition SerialPort_list :: "world \<Rightarrow> port_info list outcome" where
  "SerialPort_list w =
     (let w1 = perform ListPorts w
      in case lists w1 of
           [] \<Rightarrow> Pending w1
         | r # rs \<Rightarrow>
             (let w2 = settle (w1\<lparr>lists := rs\<rparr>)
              in case r of Inl e \<Rightarrow> Raised e w2 | Inr ps \<Rightarrow> Returned ps w2))"

text \<open>\<^verbatim>\<open>new SerialPort({ path, baudRate, autoOpen: false })\<close>.\<close>

definition newSerialPort :: "string \<Rightarrow> nat \<Rightarrow> world \<Rightarrow> serial_port" where
  "newSerialPort p b w = \<lparr>port_id = fresh w, port_path = p, baudRate = b\<rparr>"

definition allocate :: "world \<Rightarrow> world" where
  "allocate w = w\<lparr>fresh := Suc (fresh w)\<rparr>"

text \<open>\<^verbatim>\<open>await openAsync(port)\<close>, of \<^verbatim>\<open>./serial-port-async\<close>.\<close>

definition openAsync :: "serial_port \<Rightarrow> world \<Rightarrow> unit outcome" where
  "openAsync p w =
     (let w1 = perform (OpenPort p) w
      in case opens w1 of
           [] \<Rightarrow> Pending w1
         | r # rs \<Rightarrow>
             (let w2 = settle (w1\<lparr>opens := rs\<rparr>)
              in case r of
                   Some e \<Rightarrow> Raised e w2
                 | None \<Rightarrow> Returned () (w2\<lparr>live := p # live w2\<rparr>)))"

text \<open>\<^verbatim>\<open>await closeAsync(port)\<close>, of \<^verbatim>\<open>./serial-port-async\<close>.\<close>

definition closeAsync :: "serial_port \<Rightarrow> world \<Rightarrow> unit outcome" where
  "closeAsync p w =
     (let w1 = perform (ClosePort p) w
      in case closes w1 of
           [] \<Rightarrow> Pending w1
         | r # rs \<Rightarrow>
             (let w2 = settle (w1\<lparr>closes := rs\<rparr>)
              in case r of
                   Some e \<Rightarrow> Raised e w2
                 | None \<Rightarrow> Returned () (portClosed p w2)))"

text \<open>\<^verbatim>\<open>await writeAndDrain(port, command)\<close>, of \<^verbatim>\<open>./serial-port-extensions\<close>.\<close>

definition writeAndDrain :: "serial_port \<Rightarrow> string \<Rightarrow> world \<Rightarrow> unit outcome" where
  "writeAndDrain p command w =
     (let w1 = perform (WriteAndDrain p command) w
      in case writes w1 of
           [] \<Rightarrow> Pending w1
         | r # rs \<Rightarrow>
             (let w2 = settle (w1\<lparr>writes := rs\<rparr>)
              in case r of Some e \<Rightarrow> Raised e w2 | None \<Rightarrow> Returned () w2))"

text \<open>
  \<^verbatim>\<open>await readUntil(port, terminator, timeout)\<close>, of \<^verbatim>\<open>./serial-port-extensions\<close>:
  the text read, or no text (\<open>None\<close>, a \<^verbatim>\<open>null\<close> or \<^verbatim>\<open>undefined\<close> result), or an error,
  \<open>Timeout\<close> when the deadline passes.
\<close>

definition readUntil ::
  "serial_port \<Rightarrow> terminator \<Rightarrow> nat option \<Rightarrow> world \<Rightarrow> string option outcome" where
  "readUntil p t timeout w =
     (let w1 = perform (ReadUntil p t timeout) w
      in case reads w1 of
           [] \<Rightarrow> Pending w1
         | r # rs \<Rightarrow>
             (let w2 = settle (w1\<lparr>reads := rs\<rparr>)
              in case r of Inl e \<Rightarrow> Raised e w2 | Inr text \<Rightarrow> Returned text w2))"

text \<open>\<^verbatim>\<open>port.on('close', () => { this.#serialPort = null; })\<close>.\<close>

definition onClose :: "serial_port \<Rightarrow> world \<Rightarrow> world" where
  "onClose p w = (perform (OnClose p) w)\<lparr>observed := p # observed w\<rparr>"

text \<open>\<^verbatim>\<open>try { ... } catch (e) { ... }\<close>: the handler takes over where the block raises.\<close>

definition tryCatch :: "'a outcome \<Rightarrow> (error \<Rightarrow> world \<Rightarrow> 'a outcome) \<Rightarrow> 'a outcome" where
  "tryCatch m h =
     (case m of
        Returned x w \<Rightarrow> Returned x w
      | Raised e w \<Rightarrow> h e w
      | Pending w \<Rightarrow> Pending w)"

lemma andThen_cong [fundef_cong]:
  "m = m' \<Longrightarrow> (\<And>x w. m' = Returned x w \<Longrightarrow> f x w = f' x w) \<Longrightarrow> andThen m f = andThen m' f'"
  by (simp add: andThen_def split: outcome.splits)

lemma andThen_simps [simp]:
  "andThen (Returned x w) f = f x w"
  "andThen (Raised e w) f = Raised e w"
  "andThen (Pending w) f = Pending w"
  by (simp_all add: andThen_def)

lemma tryCatch_simps [simp]:
  "tryCatch (Returned x w) h = Returned x w"
  "tryCatch (Raised e w) h = h e w"
  "tryCatch (Pending w) h = Pending w"
  by (simp_all add: tryCatch_def)

subsection \<open>The script of the environment is finite\<close>

text \<open>
  \<open>budget\<close> is what is left of the environment's script. Every asynchronous primitive
  that settles uses one entry, and every round of a loop of the client awaits at least
  one primitive: this is why the loops below terminate.
\<close>

definition budget :: "world \<Rightarrow> nat" where
  "budget w = length (lists w) + length (opens w) + length (reads w) + length (writes w)
     + length (closes w)"

lemma budget_perform [simp]: "budget (perform a w) = budget w"
  by (simp add: budget_def perform_def)

lemma budget_settle [simp]: "budget (settle w) = budget w"
  by (simp add: budget_def settle_def hangup_def split: list.splits)

lemma budget_delay [simp]: "budget (delay ms w) = budget w"
  by (simp add: delay_def)

lemma budget_emit [simp]: "budget (emit e w) = budget w"
  by (simp add: emit_def)

lemma budget_portClosed [simp]: "budget (portClosed p w) = budget w"
  by (simp add: portClosed_def budget_def)

lemma budget_allocate [simp]: "budget (allocate w) = budget w"
  by (simp add: allocate_def budget_def)

lemma budget_onClose [simp]: "budget (onClose p w) = budget w"
  by (simp add: onClose_def budget_def perform_def)

lemma budget_serialPort_update [simp]: "budget (w\<lparr>serialPort := x\<rparr>) = budget w"
  by (simp add: budget_def)

lemma budget_live_update [simp]: "budget (w\<lparr>live := x\<rparr>) = budget w"
  by (simp add: budget_def)

lemma budget_lists_update [simp]: "lists w = r # rs \<Longrightarrow> budget (w\<lparr>lists := rs\<rparr>) < budget w"
  by (simp add: budget_def)

lemma budget_opens_update [simp]: "opens w = r # rs \<Longrightarrow> budget (w\<lparr>opens := rs\<rparr>) < budget w"
  by (simp add: budget_def)

lemma budget_reads_update [simp]: "reads w = r # rs \<Longrightarrow> budget (w\<lparr>reads := rs\<rparr>) < budget w"
  by (simp add: budget_def)

lemma budget_writes_update [simp]: "writes w = r # rs \<Longrightarrow> budget (w\<lparr>writes := rs\<rparr>) < budget w"
  by (simp add: budget_def)

lemma budget_closes_update [simp]: "closes w = r # rs \<Longrightarrow> budget (w\<lparr>closes := rs\<rparr>) < budget w"
  by (simp add: budget_def)

lemma perform_queues [simp]:
  "lists (perform a w) = lists w" "opens (perform a w) = opens w" "reads (perform a w) = reads w"
  "writes (perform a w) = writes w" "closes (perform a w) = closes w"
  by (simp_all add: perform_def)

lemma SerialPort_list_budget:
  "SerialPort_list w = Returned x w' \<Longrightarrow> budget w' < budget w"
  "SerialPort_list w = Raised e w' \<Longrightarrow> budget w' < budget w"
  "SerialPort_list w = Pending w' \<Longrightarrow> budget w' \<le> budget w"
  using budget_lists_update[of "perform ListPorts w"]
  by (auto simp: SerialPort_list_def Let_def split: list.splits sum.splits)

lemma openAsync_budget:
  "openAsync p w = Returned x w' \<Longrightarrow> budget w' < budget w"
  "openAsync p w = Raised e w' \<Longrightarrow> budget w' < budget w"
  "openAsync p w = Pending w' \<Longrightarrow> budget w' \<le> budget w"
  using budget_opens_update[of "perform (OpenPort p) w"]
  by (auto simp: openAsync_def Let_def split: list.splits option.splits)

lemma closeAsync_budget:
  "closeAsync p w = Returned x w' \<Longrightarrow> budget w' < budget w"
  "closeAsync p w = Raised e w' \<Longrightarrow> budget w' < budget w"
  "closeAsync p w = Pending w' \<Longrightarrow> budget w' \<le> budget w"
  using budget_closes_update[of "perform (ClosePort p) w"]
  by (auto simp: closeAsync_def Let_def split: list.splits option.splits)

lemma writeAndDrain_budget:
  "writeAndDrain p s w = Returned x w' \<Longrightarrow> budget w' < budget w"
  "writeAndDrain p s w = Raised e w' \<Longrightarrow> budget w' < budget w"
  "writeAndDrain p s w = Pending w' \<Longrightarrow> budget w' \<le> budget w"
  using budget_writes_update[of "perform (WriteAndDrain p s) w"]
  by (auto simp: writeAndDrain_def Let_def split: list.splits option.splits)

lemma readUntil_budget:
  "readUntil p t d w = Returned y w' \<Longrightarrow> budget w' < budget w"
  "readUntil p t d w = Raised e w' \<Longrightarrow> budget w' < budget w"
  "readUntil p t d w = Pending w' \<Longrightarrow> budget w' \<le> budget w"
  using budget_reads_update[of "perform (ReadUntil p t d) w"]
  by (auto simp: readUntil_def Let_def split: list.splits sum.splits)

lemma andThen_budget:
  assumes "budget (final m) \<le> n"
    and "\<And>x w1. m = Returned x w1 \<Longrightarrow> budget (final (f x w1)) \<le> budget w1"
  shows "budget (final (andThen m f)) \<le> n"
  using assms by (cases m) (auto intro: order_trans)

lemma tryCatch_budget:
  assumes "budget (final m) \<le> n"
    and "\<And>e w1. m = Raised e w1 \<Longrightarrow> budget (final (h e w1)) \<le> budget w1"
  shows "budget (final (tryCatch m h)) \<le> n"
  using assms by (cases m) (auto intro: order_trans)

lemma SerialPort_list_final: "budget w \<le> n \<Longrightarrow> budget (final (SerialPort_list w)) \<le> n"
  using SerialPort_list_budget [of w] by (cases "SerialPort_list w") auto

lemma openAsync_final: "budget w \<le> n \<Longrightarrow> budget (final (openAsync p w)) \<le> n"
  using openAsync_budget [of p w] by (cases "openAsync p w") auto

lemma closeAsync_final: "budget w \<le> n \<Longrightarrow> budget (final (closeAsync p w)) \<le> n"
  using closeAsync_budget [of p w] by (cases "closeAsync p w") auto

lemma writeAndDrain_final: "budget w \<le> n \<Longrightarrow> budget (final (writeAndDrain p s w)) \<le> n"
  using writeAndDrain_budget [of p s w] by (cases "writeAndDrain p s w") auto

lemma readUntil_final: "budget w \<le> n \<Longrightarrow> budget (final (readUntil p t d w)) \<le> n"
  using readUntil_budget [of p t d w] by (cases "readUntil p t d w") auto

lemmas budget_rules =
  andThen_budget tryCatch_budget SerialPort_list_final openAsync_final closeAsync_final
  writeAndDrain_final readUntil_final

section \<open>The device locator\<close>

text \<open>
  Lines 13 to 16: the first enumerated endpoint whose vendor and product identifiers are
  those of the device; \<^verbatim>\<open>Array.prototype.find\<close> gives \<^verbatim>\<open>undefined\<close> when there
  is none.
\<close>

definition isFlipperZero :: "constants \<Rightarrow> port_info \<Rightarrow> bool" where
  "isFlipperZero c p =
     (vendorId p = Some (FlipperVendorId c) \<and> productId p = Some (FlipperProductId c))"

definition getFlipperZeroDevice :: "constants \<Rightarrow> world \<Rightarrow> port_info option outcome" where
  "getFlipperZeroDevice c w =
     andThen (SerialPort_list w) (\<lambda>serialDevices w1.
       Returned (find (isFlipperZero c) serialDevices) w1)"

lemma getFlipperZeroDevice_budget:
  "getFlipperZeroDevice c w = Returned x w' \<Longrightarrow> budget w' < budget w"
  by (auto simp: getFlipperZeroDevice_def andThen_def split: outcome.splits dest: SerialPort_list_budget)

lemma getFlipperZeroDevice_final: "budget w \<le> n \<Longrightarrow> budget (final (getFlipperZeroDevice c w)) \<le> n"
  unfolding getFlipperZeroDevice_def by (intro budget_rules | simp)+

text \<open>Lines 18 to 25: poll once a second until the device is there.\<close>

function waitForFlipperZeroDevice :: "constants \<Rightarrow> world \<Rightarrow> port_info outcome" where
  "waitForFlipperZeroDevice c w =
     andThen (getFlipperZeroDevice c w) (\<lambda>flipperZeroDevice w1.
       case flipperZeroDevice of
         None \<Rightarrow> waitForFlipperZeroDevice c (delay 1000 w1)
       | Some d \<Rightarrow> Returned d w1)"
  by pat_completeness auto
termination
  by (relation "measure (\<lambda>(c, w). budget w)") (auto dest: getFlipperZeroDevice_budget)

declare waitForFlipperZeroDevice.simps [simp del]

lemma waitForFlipperZeroDevice_final:
  "budget w \<le> n \<Longrightarrow> budget (final (waitForFlipperZeroDevice c w)) \<le> n"
proof (induction c w arbitrary: n rule: waitForFlipperZeroDevice.induct)
  case (1 c w)
  show ?case
  proof (subst waitForFlipperZeroDevice.simps, rule andThen_budget)
    show "budget (final (getFlipperZeroDevice c w)) \<le> n"
      using "1.prems" by (rule getFlipperZeroDevice_final)
  next
    fix x w1
    assume "getFlipperZeroDevice c w = Returned x w1"
    from "1.IH" [OF this, of "budget w1"]
    show "budget (final (case x of None \<Rightarrow> waitForFlipperZeroDevice c (delay 1000 w1)
                         | Some d \<Rightarrow> Returned d w1)) \<le> budget w1"
      by (cases x) simp_all
  qed
qed

lemma waitForFlipperZeroDevice_less:
  "waitForFlipperZeroDevice c w = Returned d w' \<Longrightarrow> budget w' < budget w"
proof (induction c w rule: waitForFlipperZeroDevice.induct)
  case (1 c w)
  from "1.prems" obtain x w1 where g: "getFlipperZeroDevice c w = Returned x w1"
    by (subst (asm) waitForFlipperZeroDevice.simps) (auto simp: andThen_def split: outcome.splits)
  then have lt: "budget w1 < budget w" by (rule getFlipperZeroDevice_budget)
  show ?case
  proof (cases x)
    case None
    with g "1.prems" have "waitForFlipperZeroDevice c (delay 1000 w1) = Returned d w'"
      by (subst (asm) waitForFlipperZeroDevice.simps) simp
    from "1.IH" [OF g None this] lt show ?thesis by simp
  next
    case (Some y)
    with g "1.prems" lt show ?thesis
      by (subst (asm) waitForFlipperZeroDevice.simps) simp
  qed
qed

section \<open>The session manager\<close>

text \<open>
  One round of the loop of lines 54 to 75. Its result is the local variable
  \<^verbatim>\<open>serialPort\<close> as the loop condition finds it: \<open>None\<close> when one of the two
  \<^verbatim>\<open>catch\<close> blocks has set it to \<^verbatim>\<open>null\<close>. An error of \<^verbatim>\<open>closeAsync\<close> inside the
  second \<^verbatim>\<open>catch\<close> block is not caught.
\<close>

definition getSerialPort_attempt :: "constants \<Rightarrow> world \<Rightarrow> serial_port option outcome" where
  "getSerialPort_attempt c w =
     andThen (waitForFlipperZeroDevice c (emit TotpEventNameConnecting w)) (\<lambda>flipperZeroDevice w1.
       let sp = newSerialPort (path flipperZeroDevice) 115200 w1
       in andThen
            (tryCatch (andThen (openAsync sp (allocate w1)) (\<lambda>u w2. Returned (Some sp) w2))
               (\<lambda>e w2. Returned None (delay 1000 w2)))
            (\<lambda>opened w3.
               case opened of
                 None \<Rightarrow> Returned None w3
               | Some p \<Rightarrow>
                   tryCatch
                     (andThen (readUntil p (Literal (FlipperCliEndOfCommand c)) (Some 1000) w3)
                        (\<lambda>r w4. Returned (Some p) w4))
                     (\<lambda>e w4. andThen (closeAsync p w4) (\<lambda>u w5. Returned None (delay 1000 w5)))))"

lemma getSerialPort_attempt_final:
  "budget w \<le> n \<Longrightarrow> budget (final (getSerialPort_attempt c w)) \<le> n"
  unfolding getSerialPort_attempt_def Let_def
  by (intro budget_rules waitForFlipperZeroDevice_final allI impI | simp split: option.splits)+

lemma getSerialPort_attempt_less:
  assumes "getSerialPort_attempt c w = Returned x w'"
  shows "budget w' < budget w"
proof -
  from assms obtain d w1 where wf: "waitForFlipperZeroDevice c (emit TotpEventNameConnecting w) = Returned d w1"
    by (auto simp: getSerialPort_attempt_def andThen_def split: outcome.splits)
  then have lt: "budget w1 < budget w"
    using waitForFlipperZeroDevice_less by fastforce
  let ?sp = "newSerialPort (path d) 115200 w1"
  let ?rest = "andThen
            (tryCatch (andThen (openAsync ?sp (allocate w1)) (\<lambda>u w2. Returned (Some ?sp) w2))
               (\<lambda>e w2. Returned None (delay 1000 w2)))
            (\<lambda>opened w3.
               case opened of
                 None \<Rightarrow> Returned None w3
               | Some p \<Rightarrow>
                   tryCatch
                     (andThen (readUntil p (Literal (FlipperCliEndOfCommand c)) (Some 1000) w3)
                        (\<lambda>r w4. Returned (Some p) w4))
                     (\<lambda>e w4. andThen (closeAsync p w4) (\<lambda>u w5. Returned None (delay 1000 w5))))"
  have "budget (final ?rest) \<le> budget w1"
    by (intro budget_rules allI impI | simp split: option.splits)+
  moreover have "?rest = Returned x w'"
    using assms wf by (simp add: getSerialPort_attempt_def Let_def)
  ultimately show ?thesis using lt by simp
qed

text \<open>\<^verbatim>\<open>do { ... } while (serialPort == null)\<close>.\<close>

function getSerialPort_loop :: "constants \<Rightarrow> world \<Rightarrow> serial_port outcome" where
  "getSerialPort_loop c w =
     andThen (getSerialPort_attempt c w) (\<lambda>serialPort w1.
       case serialPort of
         None \<Rightarrow> getSerialPort_loop c w1
       | Some p \<Rightarrow> Returned p w1)"
  by pat_completeness auto
termination
  by (relation "measure (\<lambda>(c, w). budget w)") (auto dest: getSerialPort_attempt_less)


declare getSerialPort_loop.simps [simp del]

lemma getSerialPort_loop_final:
  "budget w \<le> n \<Longrightarrow> budget (final (getSerialPort_loop c w)) \<le> n"
proof (induction c w arbitrary: n rule: getSerialPort_loop.induct)
  case (1 c w)
  show ?case
  proof (subst getSerialPort_loop.simps, rule andThen_budget)
    show "budget (final (getSerialPort_attempt c w)) \<le> n"
      using "1.prems" by (rule getSerialPort_attempt_final)
  next
    fix x w1
    assume "getSerialPort_attempt c w = Returned x w1"
    from "1.IH" [OF this, of "budget w1"]
    show "budget (final (case x of None \<Rightarrow> getSerialPort_loop c w1 | Some p \<Rightarrow> Returned p w1))
            \<le> budget w1"
      by (cases x) simp_all
  qed
qed

text \<open>
  Lines 50 to 85. With a transport in the field, it is returned as it is. Otherwise the
  loop finds one; the listener is registered, the field is set, \<^verbatim>\<open>connected\<close> is emitted.
\<close>

definition getSerialPort :: "constants \<Rightarrow> world \<Rightarrow> serial_port outcome" where
  "getSerialPort c w =
     (case serialPort w of
        None \<Rightarrow>
          andThen (getSerialPort_loop c w) (\<lambda>sp w1.
            Returned sp (emit TotpEventNameConnected ((onClose sp w1)\<lparr>serialPort := Some sp\<rparr>)))
      | Some p \<Rightarrow> Returned p w)"

lemma getSerialPort_final: "budget w \<le> n \<Longrightarrow> budget (final (getSerialPort c w)) \<le> n"
  unfolding getSerialPort_def
  by (cases "serialPort w") (intro budget_rules getSerialPort_loop_final | simp)+

section \<open>The command executor\<close>

text \<open>
  \<^verbatim>\<open>escapeStringRegexp\<close> of the package \<^verbatim>\<open>escape-string-regexp\<close>: a backslash before
  each special character of a pattern, and \<^verbatim>\<open>\x2d\<close> for a hyphen.
\<close>

definition escapeStringRegexp :: "string \<Rightarrow> string" where
  "escapeStringRegexp s =
     concat (map (\<lambda>ch. if ch \<in> set ''|{}()[]^$+*?.'' \<or> ch = CHR 0x5C then [CHR 0x5C, ch]
                        else if ch = CHR ''-'' then [CHR 0x5C] @ ''x2d''
                        else [ch]) s)"

text \<open>
  \<^verbatim>\<open>commandEndSign: string | RegExp\<close>. Of a pattern the client uses the source text, and
  what \<^verbatim>\<open>response.replace(pattern, '')\<close> makes of a response: the second argument of
  \<open>Rx\<close>.
\<close>

datatype end_sign = Str string | Rx string "string \<Rightarrow> string"

record ExecuteCommandOptions =
  skipFirstLine :: bool
  trimCommandEndSignature :: bool
  trimEmptyLines :: bool
  trimTerminalControlCommands :: bool
  commandEndSign :: end_sign

text \<open>
  \<^verbatim>\<open>Partial<ExecuteCommandOptions>\<close>: \<open>None\<close> for a key that the caller leaves out.
\<close>

record PartialOptions =
  skipFirstLine_opt :: "bool option"
  trimCommandEndSignature_opt :: "bool option"
  trimEmptyLines_opt :: "bool option"
  trimTerminalControlCommands_opt :: "bool option"
  commandEndSign_opt :: "end_sign option"

definition executeCommandDefaultOptions :: "constants \<Rightarrow> ExecuteCommandOptions" where
  "executeCommandDefaultOptions c =
     \<lparr>skipFirstLine = True,
      trimCommandEndSignature = True,
      trimEmptyLines = True,
      trimTerminalControlCommands = True,
      commandEndSign = Str (FlipperCliEndOfCommand c)\<rparr>"

definition noOptions :: PartialOptions where
  "noOptions =
     \<lparr>skipFirstLine_opt = None, trimCommandEndSignature_opt = None, trimEmptyLines_opt = None,
      trimTerminalControlCommands_opt = None, commandEndSign_opt = None\<rparr>"

definition orDefault :: "'a option \<Rightarrow> 'a \<Rightarrow> 'a" where
  "orDefault x d = (case x of None \<Rightarrow> d | Some v \<Rightarrow> v)"

definition assignOptions :: "ExecuteCommandOptions \<Rightarrow> PartialOptions \<Rightarrow> ExecuteCommandOptions" where
  "assignOptions d options =
     \<lparr>skipFirstLine = orDefault (skipFirstLine_opt options) (skipFirstLine d),
      trimCommandEndSignature = orDefault (trimCommandEndSignature_opt options) (trimCommandEndSignature d),
      trimEmptyLines = orDefault (trimEmptyLines_opt options) (trimEmptyLines d),
      trimTerminalControlCommands =
        orDefault (trimTerminalControlCommands_opt options) (trimTerminalControlCommands d),
      commandEndSign = orDefault (commandEndSign_opt options) (commandEndSign d)\<rparr>"

text \<open>Lines 91 to 97: the pattern that ends a response.\<close>

definition commandEndSignForRegex :: "ExecuteCommandOptions \<Rightarrow> string" where
  "commandEndSignForRegex opts =
     (case commandEndSign opts of
        Rx source erase \<Rightarrow> source
      | Str s \<Rightarrow> escapeStringRegexp s)"

definition commandEndOutputSignRegex :: "constants \<Rightarrow> ExecuteCommandOptions \<Rightarrow> terminator" where
  "commandEndOutputSignRegex c opts =
     RegExp (''('' @ commandEndSignForRegex opts @ '')|('' @ escapeStringRegexp (TotpAskForPin c)
             @ '')|('' @ escapeStringRegexp (TotpCommandCancelled c) @ '')'') ''gi''"

text \<open>
  Line 106: \<^verbatim>\<open>!!response && !response.includes(FlipperCliCommandNotFound)\<close>; no text and
  the empty text are falsy. Line 108: \<^verbatim>\<open>response?.includes(TotpAskForPin)\<close>.
\<close>

definition commandFound :: "constants \<Rightarrow> string option \<Rightarrow> bool" where
  "commandFound c response =
     (case response of
        None \<Rightarrow> False
      | Some r \<Rightarrow> r \<noteq> [] \<and> \<not> includesStr r (FlipperCliCommandNotFound c))"

definition asksForPin :: "constants \<Rightarrow> string option \<Rightarrow> bool" where
  "asksForPin c response =
     (case response of
        None \<Rightarrow> False
      | Some r \<Rightarrow> includesStr r (TotpAskForPin c))"

text \<open>
  One round of the loop of lines 98 to 115. Its result is \<^verbatim>\<open>commandFound\<close> with
  \<^verbatim>\<open>response\<close>, as the loop condition finds them.
\<close>

definition executeCommand_attempt ::
  "constants \<Rightarrow> ExecuteCommandOptions \<Rightarrow> string \<Rightarrow> world \<Rightarrow> (bool \<times> string option) outcome" where
  "executeCommand_attempt c opts command w =
     andThen (getSerialPort c w) (\<lambda>p1 w1.
     andThen (writeAndDrain p1 command w1) (\<lambda>u w2.
     andThen (if skipFirstLine opts
              then andThen (getSerialPort c w2) (\<lambda>p2 w3.
                   andThen (readUntil p2 (Literal [CR, LF]) (Some 1000) w3) (\<lambda>r w4. Returned () w4))
              else Returned () w2) (\<lambda>u w5.
     andThen (getSerialPort c w5) (\<lambda>p3 w6.
     andThen (readUntil p3 (commandEndOutputSignRegex c opts) (Some 5000) w6) (\<lambda>response w7.
       if commandFound c response then
         (if asksForPin c response then
            andThen (getSerialPort c (emit TotpEventNamePinRequested w7)) (\<lambda>p4 w8.
            andThen (readUntil p4 (commandEndOutputSignRegex c opts) None w8) (\<lambda>response w9.
              Returned (True, response) w9))
          else Returned (True, response) w7)
       else Returned (False, response) (delay 1000 w7))))))"

lemma executeCommand_attempt_final:
  "budget w \<le> n \<Longrightarrow> budget (final (executeCommand_attempt c opts command w)) \<le> n"
  unfolding executeCommand_attempt_def
  by (intro budget_rules getSerialPort_final allI impI | simp split: if_splits)+

lemma executeCommand_attempt_less:
  assumes "executeCommand_attempt c opts command w = Returned x w'"
  shows "budget w' < budget w"
proof -
  from assms obtain p1 w1 where g: "getSerialPort c w = Returned p1 w1"
    by (auto simp: executeCommand_attempt_def andThen_def split: outcome.splits)
  then have le: "budget w1 \<le> budget w"
    using getSerialPort_final [of w "budget w" c] by simp
  from assms g obtain u w2 where wr: "writeAndDrain p1 command w1 = Returned u w2"
    by (auto simp: executeCommand_attempt_def andThen_def split: outcome.splits)
  then have lt: "budget w2 < budget w1" by (rule writeAndDrain_budget)
  let ?rest = "andThen (if skipFirstLine opts
              then andThen (getSerialPort c w2) (\<lambda>p2 w3.
                   andThen (readUntil p2 (Literal [CR, LF]) (Some 1000) w3) (\<lambda>r w4. Returned () w4))
              else Returned () w2) (\<lambda>u w5.
     andThen (getSerialPort c w5) (\<lambda>p3 w6.
     andThen (readUntil p3 (commandEndOutputSignRegex c opts) (Some 5000) w6) (\<lambda>response w7.
       if commandFound c response then
         (if asksForPin c response then
            andThen (getSerialPort c (emit TotpEventNamePinRequested w7)) (\<lambda>p4 w8.
            andThen (readUntil p4 (commandEndOutputSignRegex c opts) None w8) (\<lambda>response w9.
              Returned (True, response) w9))
          else Returned (True, response) w7)
       else Returned (False, response) (delay 1000 w7))))"
  have "budget (final ?rest) \<le> budget w2"
    by (intro budget_rules getSerialPort_final allI impI | simp split: if_splits)+
  moreover have "?rest = Returned x w'"
    using assms g wr by (simp add: executeCommand_attempt_def)
  ultimately show ?thesis using le lt by simp
qed

text \<open>\<^verbatim>\<open>do { ... } while (!commandFound)\<close>.\<close>

function executeCommand_loop ::
  "constants \<Rightarrow> ExecuteCommandOptions \<Rightarrow> string \<Rightarrow> world \<Rightarrow> string option outcome" where
  "executeCommand_loop c opts command w =
     andThen (executeCommand_attempt c opts command w) (\<lambda>r w1.
       if fst r then Returned (snd r) w1 else executeCommand_loop c opts command w1)"
  by pat_completeness auto
termination
  by (relation "measure (\<lambda>(c, opts, command, w). budget w)")
    (auto dest: executeCommand_attempt_less)

declare executeCommand_loop.simps [simp del]

text \<open>
  Line 121, \<^verbatim>\<open>response.replace(opts.commandEndSign, '')\<close>: the first occurrence of a
  string, or what the pattern erases.
\<close>

definition replaceEndSign :: "string \<Rightarrow> end_sign \<Rightarrow> string" where
  "replaceEndSign response sign =
     (case sign of
        Str s \<Rightarrow> replaceString response s
      | Rx source erase \<Rightarrow> erase response)"

text \<open>
  Lines 117 to 131: no text, the empty text and a cancelled command give \<^verbatim>\<open>null\<close>; any
  other response is cleaned as the options say.
\<close>

definition postProcess :: "constants \<Rightarrow> ExecuteCommandOptions \<Rightarrow> string option \<Rightarrow> string option" where
  "postProcess c opts response =
     (case response of
        None \<Rightarrow> None
      | Some r \<Rightarrow>
          if r = [] \<or> includesStr r (TotpCommandCancelled c) then None
          else
            (let r1 = (if trimCommandEndSignature opts then replaceEndSign r (commandEndSign opts) else r);
                 r2 = (if trimTerminalControlCommands opts then replaceControl None r1 else r1);
                 r3 = (if trimEmptyLines opts then replaceBlank None r2 else r2)
             in Some r3))"

text \<open>Lines 87 to 134.\<close>

definition executeCommand ::
  "constants \<Rightarrow> string \<Rightarrow> PartialOptions \<Rightarrow> world \<Rightarrow> string option outcome" where
  "executeCommand c command options w =
     (let opts = assignOptions (executeCommandDefaultOptions c) options
      in andThen (executeCommand_loop c opts command w) (\<lambda>response w1.
           Returned (postProcess c opts response) w1))"

subsection \<open>The public operations\<close>

definition waitForApp :: "constants \<Rightarrow> world \<Rightarrow> unit outcome" where
  "waitForApp c w =
     andThen (executeCommand c (TotpCommand c @ '' ?'' @ [CR]) noOptions w) (\<lambda>response w1.
       Returned () w1)"

definition waitForDevice :: "constants \<Rightarrow> world \<Rightarrow> unit outcome" where
  "waitForDevice c w =
     (case serialPort w of
        None \<Rightarrow> andThen (getSerialPort c w) (\<lambda>p w1. Returned () w1)
      | Some p \<Rightarrow> Returned () w)"

text \<open>
  \<^verbatim>\<open>parseFromString\<close> of \<^verbatim>\<open>./ascii-table-parse\<close> is a parameter. An empty response is
  falsy and is not parsed.
\<close>

definition listTokens :: "(string \<Rightarrow> 'r list) \<Rightarrow> constants \<Rightarrow> world \<Rightarrow> 'r list outcome" where
  "listTokens parseFromString c w =
     andThen (executeCommand c (TotpCommand c @ '' ls'' @ [CR]) noOptions w) (\<lambda>response w1.
       Returned (case response of
                   None \<Rightarrow> []
                 | Some r \<Rightarrow> if r = [] then [] else parseFromString r) w1)"

text \<open>Lines 151 to 157.\<close>

definition close :: "world \<Rightarrow> unit outcome" where
  "close w =
     (case serialPort w of
        Some p \<Rightarrow> andThen (closeAsync p w) (\<lambda>u w1. Returned () (emit TotpEventNameClose w1))
      | None \<Rightarrow> Returned () (emit TotpEventNameClose w))"

subsection \<open>A client at work\<close>

text \<open>
  What happens to one client, one thing after the other: the caller gets the transport,
  executes a command or closes the client, or the channel closes under the client. A
  caller that awaits each call starts the next one when the last has returned or raised;
  behind a call that never settles nothing more is started.
\<close>

datatype operation =
    GetTransport
  | Execute string PartialOptions
  | Close
  | ChannelClosed

definition settled :: "'a outcome \<Rightarrow> bool" where
  "settled m = (case m of Pending w \<Rightarrow> False | Returned x w \<Rightarrow> True | Raised e w \<Rightarrow> True)"

fun run :: "constants \<Rightarrow> operation list \<Rightarrow> world \<Rightarrow> world" where
  "run c [] w = w"
| "run c (GetTransport # ops) w =
     (let m = getSerialPort c w in if settled m then run c ops (final m) else final m)"
| "run c (Execute command options # ops) w =
     (let m = executeCommand c command options w in if settled m then run c ops (final m) else final m)"
| "run c (Close # ops) w =
     (let m = close w in if settled m then run c ops (final m) else final m)"
| "run c (ChannelClosed # ops) w = run c ops (hangup w)"

text \<open>A new client: no transport, nothing opened, nothing done; the script is free.\<close>

definition initial :: "world \<Rightarrow> bool" where
  "initial w = (serialPort w = None \<and> observed w = [] \<and> live w = [] \<and> trace w = [])"

section \<open>Reading outcomes, and a world to run the client in\<close>

definition returned :: "'a outcome \<Rightarrow> 'a option" where
  "returned m = (case m of Returned x w \<Rightarrow> Some x | Raised e w \<Rightarrow> None | Pending w \<Rightarrow> None)"

definition raised :: "'a outcome \<Rightarrow> error option" where
  "raised m = (case m of Returned x w \<Rightarrow> None | Raised e w \<Rightarrow> Some e | Pending w \<Rightarrow> None)"

text \<open>
  Literals for the examples. The end marker is the one of the specification's example;
  the other values only have to differ from each other.
\<close>

definition exampleConstants :: constants where
  "exampleConstants =
     \<lparr>TotpCommand = ''totp'', FlipperCliEndOfCommand = ''>>> '', FlipperVendorId = ''0483'',
      FlipperProductId = ''5740'', TotpAskForPin = ''PIN?'', TotpCommandCancelled = ''cancelled'',
      FlipperCliCommandNotFound = ''not found''\<rparr>"

definition exampleDevice :: "string \<Rightarrow> port_info" where
  "exampleDevice p = \<lparr>path = p, vendorId = Some ''0483'', productId = Some ''5740''\<rparr>"

definition otherDevice :: "string \<Rightarrow> port_info" where
  "otherDevice p = \<lparr>path = p, vendorId = Some ''2341'', productId = None\<rparr>"

definition examplePort :: "nat \<Rightarrow> serial_port" where
  "examplePort n = \<lparr>port_id = n, port_path = ''COM3'', baudRate = 115200\<rparr>"

text \<open>A client that holds an open transport; \<open>n\<close> writes succeed, the reads are \<open>rs\<close>.\<close>

definition heldWorld :: "(error + string option) list \<Rightarrow> nat \<Rightarrow> error option list \<Rightarrow> world" where
  "heldWorld rs n cs =
     \<lparr>serialPort = Some (examplePort 0), observed = [examplePort 0], live = [examplePort 0],
      fresh = 1, trace = [], lists = [], opens = [], reads = rs, writes = replicate n None,
      closes = cs, drops = []\<rparr>"

text \<open>A new client, with the script of what its environment will do.\<close>

definition idleWorld ::
  "(error + port_info list) list \<Rightarrow> error option list \<Rightarrow> (error + string option) list
     \<Rightarrow> error option list \<Rightarrow> world" where
  "idleWorld ls os rs cs =
     \<lparr>serialPort = None, observed = [], live = [], fresh = 0, trace = [], lists = ls,
      opens = os, reads = rs, writes = [], closes = cs, drops = []\<rparr>"

section \<open>Facts about single steps\<close>

lemma returned_simps [simp]:
  "returned (Returned x w) = Some x" "returned (Raised e w) = None" "returned (Pending w) = None"
  by (simp_all add: returned_def)

lemma raised_simps [simp]:
  "raised (Returned x w) = None" "raised (Raised e w) = Some e" "raised (Pending w) = None"
  by (simp_all add: raised_def)

lemmas option_defs = noOptions_def assignOptions_def executeCommandDefaultOptions_def orDefault_def

lemmas quiet_defs = perform_def emit_def delay_def writeAndDrain_def readUntil_def closeAsync_def
  openAsync_def SerialPort_list_def

lemmas example_defs = exampleConstants_def exampleDevice_def otherDevice_def examplePort_def
  heldWorld_def idleWorld_def

lemmas sanitize_defs = includesStr_def startsWith_def postProcess_def
  replaceEndSign_def replaceString_def controlMatch_def escapeSequence_def eraseSequence_def
  wordBoundary_def isWordOpt_def isWordChar_def headOpt_def
  blankMatch_def blankTail_def atLineStart_def atLineEnd_def isSpace_def isLineTerminator_def

lemmas connect_defs = getSerialPort_def getSerialPort_loop.simps getSerialPort_attempt_def
  waitForFlipperZeroDevice.simps getFlipperZeroDevice_def isFlipperZero_def newSerialPort_def
  allocate_def onClose_def portClosed_def

lemmas execute_defs = executeCommand_def executeCommand_loop.simps executeCommand_attempt_def
  commandFound_def asksForPin_def

lemma getSerialPort_held [simp]: "serialPort w = Some p \<Longrightarrow> getSerialPort c w = Returned p w"
  by (simp add: getSerialPort_def)

lemma getSerialPort_holds:
  "getSerialPort c w = Returned p w1 \<Longrightarrow> serialPort w1 = Some p"
  by (auto simp: getSerialPort_def emit_def perform_def onClose_def andThen_def
      split: option.splits outcome.splits)

lemma settle_quiet [simp]: "drops w = [] \<Longrightarrow> settle w = w"
  by (simp add: settle_def)

lemma settle_fields [simp]:
  "trace (settle w) = trace w" "opens (settle w) = opens w" "reads (settle w) = reads w"
  "closes (settle w) = closes w" "writes (settle w) = writes w" "lists (settle w) = lists w"
  "observed (settle w) = observed w" "fresh (settle w) = fresh w"
  by (simp_all add: settle_def hangup_def split: list.splits)

lemma settle_idle [simp]: "serialPort w = None \<Longrightarrow> serialPort (settle w) = None"
  by (simp add: settle_def hangup_def split: list.splits)

lemma getFlipperZeroDevice_trace:
  "getFlipperZeroDevice c w = Returned x w1 \<Longrightarrow> trace w1 = trace w @ [ListPorts]"
  by (auto simp: getFlipperZeroDevice_def SerialPort_list_def Let_def perform_def
      split: list.splits sum.splits)

lemma waitForFlipperZeroDevice_trace:
  "waitForFlipperZeroDevice c w = Returned d w1 \<Longrightarrow>
     \<exists>k. trace w1 = trace w @ concat (replicate k [ListPorts, Delay 1000]) @ [ListPorts]"
proof (induction c w rule: waitForFlipperZeroDevice.induct)
  case (1 c w)
  from "1.prems" obtain x w0 where g: "getFlipperZeroDevice c w = Returned x w0"
    by (subst (asm) waitForFlipperZeroDevice.simps) (auto simp: andThen_def split: outcome.splits)
  note t0 = getFlipperZeroDevice_trace [OF g]
  show ?case
  proof (cases x)
    case None
    with g "1.prems" have r: "waitForFlipperZeroDevice c (delay 1000 w0) = Returned d w1"
      by (subst (asm) waitForFlipperZeroDevice.simps) simp
    from "1.IH" [OF g None r] obtain k where
      "trace w1 = trace (delay 1000 w0) @ concat (replicate k [ListPorts, Delay 1000]) @ [ListPorts]" ..
    with t0 have "trace w1 = trace w @ concat (replicate (Suc k) [ListPorts, Delay 1000]) @ [ListPorts]"
      by (simp add: delay_def perform_def)
    then show ?thesis ..
  next
    case (Some y)
    with g "1.prems" have "w1 = w0"
      by (subst (asm) waitForFlipperZeroDevice.simps) simp
    with t0 have "trace w1 = trace w @ concat (replicate 0 [ListPorts, Delay 1000]) @ [ListPorts]"
      by simp
    then show ?thesis ..
  qed
qed

lemma waitForFlipperZeroDevice_idle:
  "waitForFlipperZeroDevice c w = Returned d w1 \<Longrightarrow> serialPort w = None \<Longrightarrow> serialPort w1 = None"
proof (induction c w rule: waitForFlipperZeroDevice.induct)
  case (1 c w)
  from "1.prems" obtain x w0 where g: "getFlipperZeroDevice c w = Returned x w0"
    by (subst (asm) waitForFlipperZeroDevice.simps) (auto simp: andThen_def split: outcome.splits)
  then have i0: "serialPort w0 = None"
    using "1.prems"(2)
    by (auto simp: getFlipperZeroDevice_def SerialPort_list_def Let_def perform_def
      split: list.splits sum.splits)
  show ?case
  proof (cases x)
    case None
    with g "1.prems" have r: "waitForFlipperZeroDevice c (delay 1000 w0) = Returned d w1"
      by (subst (asm) waitForFlipperZeroDevice.simps) simp
    from "1.IH" [OF g None r] i0 show ?thesis
      by (simp add: delay_def perform_def)
  next
    case (Some y)
    with g "1.prems" i0 show ?thesis
      by (subst (asm) waitForFlipperZeroDevice.simps) simp
  qed
qed

lemma getSerialPort_restart:
  assumes "serialPort w = None" and "getSerialPort_attempt c w = Returned None w2"
    and "serialPort w2 = None"
  shows "getSerialPort c w = getSerialPort c w2"
  using assms by (simp add: getSerialPort_def getSerialPort_loop.simps [of c w])

lemma portClosed_idle [simp]: "serialPort w = None \<Longrightarrow> serialPort (portClosed p w) = None"
  by (simp add: portClosed_def)

section \<open>The session manager: connecting\<close>

text \<open>
  Claim C1. A call of \<^verbatim>\<open>#getSerialPort\<close> with no transport held emits
  \<^verbatim>\<open>connecting\<close>, polls for the device (one second between polls), makes a transport
  for the path of the device at 115200 baud and opens it. If the opening fails, the
  client waits a second; if the opening succeeds and the probe read fails, it closes the
  transport and, when the transport closes, waits a second. In both cases it goes on as
  a new call would in the world reached, and so emits \<^verbatim>\<open>connecting\<close> again before it
  polls. The \<^verbatim>\<open>closeAsync\<close> of line 70 stands in a \<^verbatim>\<open>catch\<close> block: when it fails, the
  call raises its error, and there is neither a wait nor another round. If the probe
  read returns, the listener is registered, the transport is stored, \<^verbatim>\<open>connected\<close> is
  emitted and the transport is returned; when the transport closes later, the listener
  clears the field.
\<close>

theorem getSerialPort_round:
  assumes "serialPort w = None"
    and "waitForFlipperZeroDevice c (emit TotpEventNameConnecting w) = Returned d w1"
    and "sp = newSerialPort (path d) 115200 w1"
    and "probe = ReadUntil sp (Literal (FlipperCliEndOfCommand c)) (Some 1000)"
  shows "(\<exists>k. trace w1 = trace w @ [Emit TotpEventNameConnecting]
              @ concat (replicate k [ListPorts, Delay 1000]) @ [ListPorts])
     \<and> port_path sp = path d \<and> baudRate sp = 115200
     \<and> (\<forall>e os. opens w1 = Some e # os \<longrightarrow>
            (\<exists>w2. trace w2 = trace w1 @ [OpenPort sp, Delay 1000] \<and> serialPort w2 = None
                \<and> getSerialPort c w = getSerialPort c w2))
     \<and> (\<forall>e os rs cs. opens w1 = None # os \<and> reads w1 = Inl e # rs \<and> closes w1 = None # cs \<longrightarrow>
            (\<exists>w2. trace w2 = trace w1 @ [OpenPort sp, probe, ClosePort sp, Delay 1000]
                \<and> serialPort w2 = None
                \<and> getSerialPort c w = getSerialPort c w2))
     \<and> (\<forall>e e' os rs cs. opens w1 = None # os \<and> reads w1 = Inl e # rs \<and> closes w1 = Some e' # cs \<longrightarrow>
            (\<exists>w2. getSerialPort c w = Raised e' w2
                \<and> trace w2 = trace w1 @ [OpenPort sp, probe, ClosePort sp]
                \<and> serialPort w2 = None))
     \<and> (\<forall>r os rs. opens w1 = None # os \<and> reads w1 = Inr r # rs \<longrightarrow>
            (\<exists>w2. getSerialPort c w = Returned sp w2
                \<and> trace w2 = trace w1 @ [OpenPort sp, probe, OnClose sp, Emit TotpEventNameConnected]
                \<and> serialPort w2 = Some sp \<and> sp \<in> set (observed w2)
                \<and> (sp \<in> set (live w2) \<longrightarrow> serialPort (portClosed sp w2) = None)))"
proof -
  have idle: "serialPort w1 = None"
    using waitForFlipperZeroDevice_idle [OF assms(2)] assms(1) by (simp add: emit_def perform_def)
  from waitForFlipperZeroDevice_trace [OF assms(2)]
  have polls: "\<exists>k. trace w1 = trace w @ [Emit TotpEventNameConnecting]
              @ concat (replicate k [ListPorts, Delay 1000]) @ [ListPorts]"
    by (simp add: emit_def perform_def)
  have made: "port_path sp = path d \<and> baudRate sp = 115200"
    using assms(3) by (simp add: newSerialPort_def)
  have openFails: "\<exists>w2. trace w2 = trace w1 @ [OpenPort sp, Delay 1000] \<and> serialPort w2 = None
                \<and> getSerialPort c w = getSerialPort c w2" if "opens w1 = Some e # os" for e os
  proof -
    let ?w2 = "delay 1000 (settle ((perform (OpenPort sp) (allocate w1))\<lparr>opens := os\<rparr>))"
    have a: "getSerialPort_attempt c w = Returned None ?w2"
      using assms that
      by (simp add: getSerialPort_attempt_def Let_def openAsync_def allocate_def perform_def)
    have t: "trace ?w2 = trace w1 @ [OpenPort sp, Delay 1000]"
      by (simp add: delay_def perform_def allocate_def)
    have i: "serialPort ?w2 = None"
      using idle by (simp add: delay_def perform_def allocate_def)
    from t i getSerialPort_restart [OF assms(1) a i] show ?thesis by blast
  qed
  have probeFails: "\<exists>w2. trace w2 = trace w1 @ [OpenPort sp, probe, ClosePort sp, Delay 1000]
                \<and> serialPort w2 = None \<and> getSerialPort c w = getSerialPort c w2"
    if "opens w1 = None # os" and "reads w1 = Inl e # rs" and "closes w1 = None # cs" for e os rs cs
  proof -
    let ?wa = "(settle ((perform (OpenPort sp) (allocate w1))\<lparr>opens := os\<rparr>))\<lparr>live := sp # live (settle ((perform (OpenPort sp) (allocate w1))\<lparr>opens := os\<rparr>))\<rparr>"
    let ?wb = "settle ((perform probe ?wa)\<lparr>reads := rs\<rparr>)"
    let ?wc = "portClosed sp (settle ((perform (ClosePort sp) ?wb)\<lparr>closes := cs\<rparr>))"
    let ?w2 = "delay 1000 ?wc"
    have a: "getSerialPort_attempt c w = Returned None ?w2"
      using assms that
      by (simp add: getSerialPort_attempt_def Let_def openAsync_def readUntil_def closeAsync_def
          allocate_def perform_def)
    have t: "trace ?w2 = trace w1 @ [OpenPort sp, probe, ClosePort sp, Delay 1000]"
      by (simp add: delay_def perform_def allocate_def portClosed_def)
    have i: "serialPort ?w2 = None"
      using idle by (simp add: delay_def perform_def allocate_def)
    from t i getSerialPort_restart [OF assms(1) a i] show ?thesis by blast
  qed
  have closeFails: "\<exists>w2. getSerialPort c w = Raised e' w2
                \<and> trace w2 = trace w1 @ [OpenPort sp, probe, ClosePort sp] \<and> serialPort w2 = None"
    if "opens w1 = None # os" and "reads w1 = Inl e # rs" and "closes w1 = Some e' # cs"
    for e e' os rs cs
    using assms that idle
    by (simp add: getSerialPort_def getSerialPort_loop.simps [of c w] getSerialPort_attempt_def Let_def
        openAsync_def readUntil_def closeAsync_def allocate_def perform_def)
  have succeeds: "\<exists>w2. getSerialPort c w = Returned sp w2
                \<and> trace w2 = trace w1 @ [OpenPort sp, probe, OnClose sp, Emit TotpEventNameConnected]
                \<and> serialPort w2 = Some sp \<and> sp \<in> set (observed w2)
                \<and> (sp \<in> set (live w2) \<longrightarrow> serialPort (portClosed sp w2) = None)"
    if "opens w1 = None # os" and "reads w1 = Inr r # rs" for r os rs
    using assms that
    by (simp add: getSerialPort_def getSerialPort_loop.simps [of c w] getSerialPort_attempt_def Let_def
        openAsync_def readUntil_def allocate_def perform_def emit_def onClose_def portClosed_def)
  from polls made openFails probeFails closeFails succeeds show ?thesis by blast
qed

theorem getSerialPort_round_witness:
  "\<exists>w2. getSerialPort exampleConstants
           (idleWorld [Inr [], Inr [exampleDevice ''COM3'']] [None] [Inr (Some ''>>> '')] [])
         = Returned (examplePort 0) w2
      \<and> trace w2 =
          [Emit TotpEventNameConnecting, ListPorts, Delay 1000, ListPorts,
           OpenPort (examplePort 0),
           ReadUntil (examplePort 0) (Literal ''>>> '') (Some 1000),
           OnClose (examplePort 0), Emit TotpEventNameConnected]
      \<and> serialPort w2 = Some (examplePort 0)
      \<and> examplePort 0 \<in> set (live w2)
      \<and> serialPort (portClosed (examplePort 0) w2) = None
      \<and> (\<exists>w3. getSerialPort exampleConstants
             (idleWorld [Inr [exampleDevice ''COM3'']] [None] [Inl Timeout] [Some (Failure ''busy'')])
           = Raised (Failure ''busy'') w3
         \<and> trace w3 =
             [Emit TotpEventNameConnecting, ListPorts, OpenPort (examplePort 0),
              ReadUntil (examplePort 0) (Literal ''>>> '') (Some 1000),
              ClosePort (examplePort 0)])"
  using getSerialPort_round [where c = exampleConstants
      and w = "idleWorld [Inr [], Inr [exampleDevice ''COM3'']] [None] [Inr (Some ''>>> '')] []"
      and d = "exampleDevice ''COM3''"
      and ?w1.0 = "(idleWorld [] [None] [Inr (Some ''>>> '')] [])
                     \<lparr>trace := [Emit TotpEventNameConnecting, ListPorts, Delay 1000, ListPorts]\<rparr>"
      and sp = "examplePort 0"
      and probe = "ReadUntil (examplePort 0) (Literal ''>>> '') (Some 1000)"]
    getSerialPort_round [where c = exampleConstants
      and w = "idleWorld [Inr [exampleDevice ''COM3'']] [None] [Inl Timeout] [Some (Failure ''busy'')]"
      and d = "exampleDevice ''COM3''"
      and ?w1.0 = "(idleWorld [] [None] [Inl Timeout] [Some (Failure ''busy'')])
                     \<lparr>trace := [Emit TotpEventNameConnecting, ListPorts]\<rparr>"
      and sp = "examplePort 0"
      and probe = "ReadUntil (examplePort 0) (Literal ''>>> '') (Some 1000)"]
  by (simp add: example_defs connect_defs quiet_defs Let_def)

text \<open>
  The claim C1 as it is written lets a retry start at the discovery of the device. In
  the code the retry starts at the head of the loop: with one failed opening the trace
  has \<^verbatim>\<open>connecting\<close> twice.
\<close>

theorem getSerialPort_retry_emits_connecting_again:
  "trace (final (getSerialPort exampleConstants
      (idleWorld [Inr [exampleDevice ''COM3''], Inr [exampleDevice ''COM3'']]
         [Some (Failure ''busy''), None] [Inr (Some ''>>> '')] [])))
   = [Emit TotpEventNameConnecting, ListPorts, OpenPort (examplePort 0), Delay 1000,
      Emit TotpEventNameConnecting, ListPorts, OpenPort (examplePort 1),
      ReadUntil (examplePort 1) (Literal ''>>> '') (Some 1000),
      OnClose (examplePort 1), Emit TotpEventNameConnected]"
  by (simp add: example_defs connect_defs quiet_defs Let_def)

section \<open>The command executor: one execution\<close>

text \<open>
  Claim C8. The transport is the one that \<^verbatim>\<open>#getSerialPort\<close> gives, the device stays
  plugged in and the command is written. When the main read, the one with the deadline
  of 5 seconds, ends in a timeout, \<^verbatim>\<open>#executeCommand\<close> raises that timeout: it neither
  waits for ever nor writes the command again.
\<close>

theorem executeCommand_timeout_propagates:
  assumes "getSerialPort c w = Returned p w1" and "drops w1 = []" and "writes w1 = None # ws"
    and "opts = assignOptions (executeCommandDefaultOptions c) options"
    and "reads w1 = (if skipFirstLine opts then [Inr echo] else []) @ Inl Timeout # rs"
  shows "raised (executeCommand c command options w) = Some Timeout
    \<and> trace (final (executeCommand c command options w)) =
        trace w1 @ [WriteAndDrain p command]
          @ (if skipFirstLine opts then [ReadUntil p (Literal [CR, LF]) (Some 1000)] else [])
          @ [ReadUntil p (commandEndOutputSignRegex c opts) (Some 5000)]"
  using assms getSerialPort_holds [OF assms(1)]
  by (simp add: Let_def execute_defs quiet_defs)

theorem executeCommand_timeout_propagates_witness:
  "raised (executeCommand exampleConstants ''totp ls'' noOptions
      (heldWorld [Inr (Some ''totp ls''), Inl Timeout] 1 [])) = Some Timeout
   \<and> trace (final (executeCommand exampleConstants ''totp ls'' noOptions
      (heldWorld [Inr (Some ''totp ls''), Inl Timeout] 1 []))) =
     [WriteAndDrain (examplePort 0) ''totp ls'',
      ReadUntil (examplePort 0) (Literal [CR, LF]) (Some 1000),
      ReadUntil (examplePort 0)
        (RegExp (''(>>> )|(PIN'' @ [CHR 0x5C] @ ''?)|(cancelled)'') ''gi'') (Some 5000)]"
  using executeCommand_timeout_propagates [where c = exampleConstants
      and w = "heldWorld [Inr (Some ''totp ls''), Inl Timeout] 1 []"
      and ?w1.0 = "heldWorld [Inr (Some ''totp ls''), Inl Timeout] 1 []"
      and p = "examplePort 0" and ws = "[]" and options = noOptions
      and opts = "executeCommandDefaultOptions exampleConstants"
      and echo = "Some ''totp ls''" and rs = "[]" and command = "''totp ls''"]
  by (simp add: example_defs option_defs commandEndOutputSignRegex_def commandEndSignForRegex_def
      escapeStringRegexp_def)

text \<open>
  Claim C4. The transport answers twice with a text that contains the sentinel of an
  unknown command and then with a text that does not.
  \<^verbatim>\<open>#executeCommand\<close> waits one second after each of the two, writes the command again each
  time, three times in all, and returns what the third attempt collects, cleaned: the
  third response, or the text read behind it when that response asks for a PIN.
\<close>

theorem executeCommand_retries_twice:
  assumes "getSerialPort c w = Returned p w1" and "drops w1 = []"
    and "writes w1 = None # None # None # ws"
    and "opts = assignOptions (executeCommandDefaultOptions c) options"
    and "reads w1 =
           (if skipFirstLine opts then [Inr echo1] else []) @ Inr (Some r1)
         # (if skipFirstLine opts then [Inr echo2] else []) @ Inr (Some r2)
         # (if skipFirstLine opts then [Inr echo3] else []) @ Inr (Some r3)
         # (if includesStr r3 (TotpAskForPin c) then [Inr r4] else []) @ rs"
    and "includesStr r1 (FlipperCliCommandNotFound c)"
    and "includesStr r2 (FlipperCliCommandNotFound c)"
    and "r3 \<noteq> []" and "\<not> includesStr r3 (FlipperCliCommandNotFound c)"
    and "attempt = [WriteAndDrain p command]
          @ (if skipFirstLine opts then [ReadUntil p (Literal [CR, LF]) (Some 1000)] else [])
          @ [ReadUntil p (commandEndOutputSignRegex c opts) (Some 5000)]"
  shows "returned (executeCommand c command options w) =
           Some (postProcess c opts (if includesStr r3 (TotpAskForPin c) then r4 else Some r3))
    \<and> trace (final (executeCommand c command options w)) =
        trace w1 @ attempt @ [Delay 1000] @ attempt @ [Delay 1000] @ attempt
          @ (if includesStr r3 (TotpAskForPin c)
             then [Emit TotpEventNamePinRequested,
                   ReadUntil p (commandEndOutputSignRegex c opts) None]
             else [])"
  using assms getSerialPort_holds [OF assms(1)]
  by (simp add: Let_def execute_defs quiet_defs)

theorem executeCommand_retries_twice_witness:
  "returned (executeCommand exampleConstants ''totp ls'' noOptions
      (heldWorld [Inr (Some ''e''), Inr (Some ''totp: not found''),
                  Inr (Some ''e''), Inr (Some ''totp: not found''),
                  Inr (Some ''e''), Inr (Some ''ok>>> '')] 3 [])) = Some (Some ''ok'')
   \<and> filter (\<lambda>a. a = Delay 1000 \<or> a = WriteAndDrain (examplePort 0) ''totp ls'')
       (trace (final (executeCommand exampleConstants ''totp ls'' noOptions
      (heldWorld [Inr (Some ''e''), Inr (Some ''totp: not found''),
                  Inr (Some ''e''), Inr (Some ''totp: not found''),
                  Inr (Some ''e''), Inr (Some ''ok>>> '')] 3 [])))) =
     [WriteAndDrain (examplePort 0) ''totp ls'', Delay 1000,
      WriteAndDrain (examplePort 0) ''totp ls'', Delay 1000,
      WriteAndDrain (examplePort 0) ''totp ls'']"
  using executeCommand_retries_twice [where c = exampleConstants
      and w = "heldWorld [Inr (Some ''e''), Inr (Some ''totp: not found''),
                  Inr (Some ''e''), Inr (Some ''totp: not found''),
                  Inr (Some ''e''), Inr (Some ''ok>>> '')] 3 []"
      and ?w1.0 = "heldWorld [Inr (Some ''e''), Inr (Some ''totp: not found''),
                  Inr (Some ''e''), Inr (Some ''totp: not found''),
                  Inr (Some ''e''), Inr (Some ''ok>>> '')] 3 []"
      and p = "examplePort 0" and ws = "[]" and options = noOptions
      and opts = "executeCommandDefaultOptions exampleConstants"
      and ?echo1.0 = "Some ''e''" and ?echo2.0 = "Some ''e''" and ?echo3.0 = "Some ''e''"
      and ?r1.0 = "''totp: not found''" and ?r2.0 = "''totp: not found''" and ?r3.0 = "''ok>>> ''"
      and rs = "[]" and command = "''totp ls''", OF _ _ _ _ _ _ _ _ _ refl]
  by (simp add: example_defs option_defs sanitize_defs commandEndOutputSignRegex_def
      commandEndSignForRegex_def escapeStringRegexp_def numeral_3_eq_3)

text \<open>
  Claim C2. The first response of the attempt that finds the command contains the PIN
  sentinel. Then \<^verbatim>\<open>pin-requested\<close> is emitted once, the client reads again with no
  deadline, and what it returns is the second text, cleaned; the first response, the one
  with the PIN prompt, is dropped.
\<close>

theorem executeCommand_pin_request:
  assumes "getSerialPort c w = Returned p w1" and "drops w1 = []"
    and "writes w1 = None # ws"
    and "opts = assignOptions (executeCommandDefaultOptions c) options"
    and "reads w1 = (if skipFirstLine opts then [Inr echo] else []) @ Inr (Some r1) # Inr r2 # rs"
    and "TotpAskForPin c \<noteq> []"
    and "includesStr r1 (TotpAskForPin c)"
    and "\<not> includesStr r1 (FlipperCliCommandNotFound c)"
  shows "returned (executeCommand c command options w) = Some (postProcess c opts r2)
    \<and> trace (final (executeCommand c command options w)) =
        trace w1 @ [WriteAndDrain p command]
          @ (if skipFirstLine opts then [ReadUntil p (Literal [CR, LF]) (Some 1000)] else [])
          @ [ReadUntil p (commandEndOutputSignRegex c opts) (Some 5000),
             Emit TotpEventNamePinRequested,
             ReadUntil p (commandEndOutputSignRegex c opts) None]"
proof -
  have "r1 \<noteq> []"
    using assms(6,7) by (auto simp: includesStr_def)
  then show ?thesis
    using assms getSerialPort_holds [OF assms(1)]
    by (simp add: Let_def execute_defs quiet_defs)
qed

theorem executeCommand_pin_request_witness:
  "returned (executeCommand exampleConstants ''totp ls'' noOptions
      (heldWorld [Inr (Some ''e''), Inr (Some ''PIN?''), Inr (Some ''done >>> '')] 1 []))
   = Some (Some ''done '')
   \<and> filter (\<lambda>a. a = Emit TotpEventNamePinRequested)
       (trace (final (executeCommand exampleConstants ''totp ls'' noOptions
         (heldWorld [Inr (Some ''e''), Inr (Some ''PIN?''), Inr (Some ''done >>> '')] 1 []))))
     = [Emit TotpEventNamePinRequested]"
  using executeCommand_pin_request [where c = exampleConstants
      and w = "heldWorld [Inr (Some ''e''), Inr (Some ''PIN?''), Inr (Some ''done >>> '')] 1 []"
      and ?w1.0 = "heldWorld [Inr (Some ''e''), Inr (Some ''PIN?''), Inr (Some ''done >>> '')] 1 []"
      and p = "examplePort 0" and ws = "[]" and options = noOptions
      and opts = "executeCommandDefaultOptions exampleConstants"
      and echo = "Some ''e''" and ?r1.0 = "''PIN?''" and ?r2.0 = "Some ''done >>> ''"
      and rs = "[]" and command = "''totp ls''"]
  by (simp add: example_defs option_defs sanitize_defs commandEndOutputSignRegex_def
      commandEndSignForRegex_def escapeStringRegexp_def)

text \<open>
  The claim C2 as it is written has the returned text free of the PIN prompt. The second
  read ends at the same pattern as the first, and the PIN sentinel is one of its
  alternatives: when the device prompts again, the prompt is what the caller gets.
\<close>

theorem executeCommand_pin_fragment_returned:
  "returned (executeCommand exampleConstants ''totp ls'' noOptions
      (heldWorld [Inr (Some ''e''), Inr (Some ''PIN?''), Inr (Some ''wrong, PIN?'')] 1 []))
   = Some (Some ''wrong, PIN?'')
   \<and> includesStr ''wrong, PIN?'' (TotpAskForPin exampleConstants)"
  by (simp add: example_defs option_defs sanitize_defs execute_defs quiet_defs Let_def)

text \<open>
  The example of the specification, for every set of constants whose end marker is
  \<^verbatim>\<open>>>> \<close>: with the default options the echoed line \<^verbatim>\<open>cmd\<close> is read and dropped, and
  of the response \<^verbatim>\<open>line1\r\n\r\nline2\r\n>>> \<close> the end marker and the blank line go.
  The blank line pattern of line 129 then matches once more, behind the carriage return
  that ends \<^verbatim>\<open>line2\<close>, and takes the line feed there.
\<close>

lemma executeCommand_sanitize_example:
  assumes "getSerialPort c w = Returned p w1" and "drops w1 = []" and "writes w1 = None # ws"
    and "response = ''line1'' @ [CR, LF, CR, LF] @ ''line2'' @ [CR, LF] @ ''>>> ''"
    and "reads w1 = Inr (Some (''cmd'' @ [CR, LF])) # Inr (Some response) # rs"
    and "FlipperCliEndOfCommand c = ''>>> ''"
    and "\<not> includesStr response (FlipperCliCommandNotFound c)"
    and "\<not> includesStr response (TotpAskForPin c)"
    and "\<not> includesStr response (TotpCommandCancelled c)"
  shows "returned (executeCommand c command noOptions w) =
           Some (Some (''line1'' @ [CR, LF] @ ''line2'' @ [CR]))"
proof -
  have "replaceEndSign response (Str ''>>> '') = ''line1'' @ [CR, LF, CR, LF] @ ''line2'' @ [CR, LF]"
    using assms(4) by (simp add: replaceEndSign_def replaceString_def startsWith_def)
  moreover have "replaceControl None (''line1'' @ [CR, LF, CR, LF] @ ''line2'' @ [CR, LF])
      = ''line1'' @ [CR, LF, CR, LF] @ ''line2'' @ [CR, LF]"
    by (simp add: sanitize_defs)
  moreover have "replaceBlank None (''line1'' @ [CR, LF, CR, LF] @ ''line2'' @ [CR, LF])
      = ''line1'' @ [CR, LF] @ ''line2'' @ [CR]"
    by (simp add: sanitize_defs)
  moreover have "response \<noteq> []"
    using assms(4) by simp
  ultimately have clean: "postProcess c (executeCommandDefaultOptions c) (Some response)
      = Some (''line1'' @ [CR, LF] @ ''line2'' @ [CR])"
    using assms(6,9) by (simp add: postProcess_def option_defs)
  have "returned (executeCommand c command noOptions w) =
     Some (postProcess c (executeCommandDefaultOptions c) (Some response))"
    using assms(1-3,5,7,8) \<open>response \<noteq> []\<close> getSerialPort_holds [OF assms(1)]
    by (simp add: Let_def execute_defs quiet_defs option_defs)
  with clean show ?thesis by simp
qed

text \<open>
  Claim C3. For the example of the specification the client returns
  \<^verbatim>\<open>line1\r\nline2\r\<close>, one character less than \<^verbatim>\<open>line1\r\nline2\r\n\<close>: the line
  \<^verbatim>\<open>line2\<close> is not blank, and still its line feed is taken. The pattern counts a
  carriage return as the end of a line and so finds a line between the two characters
  of the last line break. On a text whose lines end in a line feed alone it finds
  every blank line empty and takes nothing.
\<close>

theorem sanitize_example_loses_final_line_feed:
  "returned (executeCommand exampleConstants ''cmd'' noOptions
      (heldWorld [Inr (Some (''cmd'' @ [CR, LF])),
                  Inr (Some (''line1'' @ [CR, LF, CR, LF] @ ''line2'' @ [CR, LF] @ ''>>> ''))] 1 []))
     = Some (Some (''line1'' @ [CR, LF] @ ''line2'' @ [CR]))
   \<and> ''line1'' @ [CR, LF] @ ''line2'' @ [CR] \<noteq> ''line1'' @ [CR, LF] @ ''line2'' @ [CR, LF]
   \<and> replaceBlank None (''line1'' @ [LF, LF] @ ''line2'' @ [LF]) = ''line1'' @ [LF, LF] @ ''line2'' @ [LF]"
  by (simp add: example_defs option_defs sanitize_defs execute_defs quiet_defs Let_def)

text \<open>
  Claim C5. The loop of \<^verbatim>\<open>#executeCommand\<close> ends with the response of the attempt that
  finds the command: the main read, or the read behind a PIN request. When the main
  read contains the cancelled sentinel, or when the read behind a PIN request gives no
  text, the empty text or a text with the cancelled sentinel, the caller gets \<^verbatim>\<open>null\<close>,
  which is not the empty string. A main read that gives no text or the empty text does
  not end the loop (line 106): the client waits a second and goes on as a new execution
  would, with what is left of the script.
\<close>

theorem executeCommand_no_response:
  assumes "getSerialPort c w = Returned p w1" and "drops w1 = []" and "writes w1 = None # ws"
    and "opts = assignOptions (executeCommandDefaultOptions c) options"
    and "reads w1 = (if skipFirstLine opts then [Inr echo] else []) @ Inr first # rest"
    and "attempt = [WriteAndDrain p command]
          @ (if skipFirstLine opts then [ReadUntil p (Literal [CR, LF]) (Some 1000)] else [])
          @ [ReadUntil p (commandEndOutputSignRegex c opts) (Some 5000)]"
  shows "(\<forall>r. first = Some r \<and> r \<noteq> [] \<and> \<not> includesStr r (FlipperCliCommandNotFound c)
              \<and> \<not> includesStr r (TotpAskForPin c) \<and> includesStr r (TotpCommandCancelled c) \<longrightarrow>
            returned (executeCommand c command options w) = Some None
          \<and> trace (final (executeCommand c command options w)) = trace w1 @ attempt)
     \<and> (\<forall>r second rs. first = Some r \<and> r \<noteq> [] \<and> \<not> includesStr r (FlipperCliCommandNotFound c)
              \<and> includesStr r (TotpAskForPin c) \<and> rest = Inr second # rs
              \<and> (second = None \<or> second = Some []
                   \<or> (\<exists>t. second = Some t \<and> includesStr t (TotpCommandCancelled c))) \<longrightarrow>
            returned (executeCommand c command options w) = Some None
          \<and> trace (final (executeCommand c command options w)) =
              trace w1 @ attempt @ [Emit TotpEventNamePinRequested,
                                    ReadUntil p (commandEndOutputSignRegex c opts) None])
     \<and> (first = None \<or> first = Some [] \<longrightarrow>
            executeCommand c command options w =
              executeCommand c command options
                (w1\<lparr>trace := trace w1 @ attempt @ [Delay 1000], reads := rest, writes := ws\<rparr>))
     \<and> (None :: string option) \<noteq> Some []"
proof -
  note held = getSerialPort_holds [OF assms(1)]
  have cancelled: "returned (executeCommand c command options w) = Some None
          \<and> trace (final (executeCommand c command options w)) = trace w1 @ attempt"
    if "first = Some r" "r \<noteq> []" "\<not> includesStr r (FlipperCliCommandNotFound c)"
      "\<not> includesStr r (TotpAskForPin c)" "includesStr r (TotpCommandCancelled c)" for r
    using assms that held by (simp add: Let_def execute_defs quiet_defs postProcess_def)
  have pin: "returned (executeCommand c command options w) = Some None
          \<and> trace (final (executeCommand c command options w)) =
              trace w1 @ attempt @ [Emit TotpEventNamePinRequested,
                                    ReadUntil p (commandEndOutputSignRegex c opts) None]"
    if "first = Some r" "r \<noteq> []" "\<not> includesStr r (FlipperCliCommandNotFound c)"
      "includesStr r (TotpAskForPin c)" "rest = Inr second # rs"
      "second = None \<or> second = Some []
         \<or> (\<exists>t. second = Some t \<and> includesStr t (TotpCommandCancelled c))" for r second rs
  proof -
    have "postProcess c opts second = None"
      using that(6) by (auto simp: postProcess_def)
    then show ?thesis
      using assms that(1-5) held by (simp add: Let_def execute_defs quiet_defs)
  qed
  have again: "executeCommand c command options w =
              executeCommand c command options
                (w1\<lparr>trace := trace w1 @ attempt @ [Delay 1000], reads := rest, writes := ws\<rparr>)"
    if "first = None \<or> first = Some []"
  proof -
    let ?w2 = "w1\<lparr>trace := trace w1 @ attempt @ [Delay 1000], reads := rest, writes := ws\<rparr>"
    have "executeCommand_attempt c opts command w = Returned (False, first) ?w2"
      using assms that held
      by (auto simp: Let_def executeCommand_attempt_def commandFound_def quiet_defs)
    then have "executeCommand_loop c opts command w = executeCommand_loop c opts command ?w2"
      by (simp add: executeCommand_loop.simps [of c opts command w])
    then show ?thesis
      unfolding executeCommand_def Let_def assms(4) by simp
  qed
  from cancelled pin again show ?thesis by blast
qed

theorem executeCommand_no_response_witness:
  "returned (executeCommand exampleConstants ''totp ls'' noOptions
      (heldWorld [Inr (Some ''e''), Inr (Some ''cancelled by user>>> '')] 1 [])) = Some None
   \<and> returned (executeCommand exampleConstants ''totp ls'' noOptions
      (heldWorld [Inr (Some ''e''), Inr (Some ''PIN?''), Inr None] 1 [])) = Some None
   \<and> executeCommand exampleConstants ''totp ls'' noOptions
        (heldWorld [Inr (Some ''e''), Inr None, Inr (Some ''e''), Inr (Some ''ok>>> '')] 2 [])
     = executeCommand exampleConstants ''totp ls'' noOptions
        ((heldWorld [Inr (Some ''e''), Inr (Some ''ok>>> '')] 1 [])
           \<lparr>trace := [WriteAndDrain (examplePort 0) ''totp ls'',
                       ReadUntil (examplePort 0) (Literal [CR, LF]) (Some 1000),
                       ReadUntil (examplePort 0)
                         (RegExp (''(>>> )|(PIN'' @ [CHR 0x5C] @ ''?)|(cancelled)'') ''gi'') (Some 5000),
                       Delay 1000]\<rparr>)"
  using executeCommand_no_response [where c = exampleConstants and options = noOptions
      and opts = "executeCommandDefaultOptions exampleConstants" and command = "''totp ls''"
      and w = "heldWorld [Inr (Some ''e''), Inr (Some ''cancelled by user>>> '')] 1 []"
      and ?w1.0 = "heldWorld [Inr (Some ''e''), Inr (Some ''cancelled by user>>> '')] 1 []"
      and p = "examplePort 0" and ws = "[]" and echo = "Some ''e''"
      and first = "Some ''cancelled by user>>> ''" and rest = "[]", OF _ _ _ _ _ refl]
    executeCommand_no_response [where c = exampleConstants and options = noOptions
      and opts = "executeCommandDefaultOptions exampleConstants" and command = "''totp ls''"
      and w = "heldWorld [Inr (Some ''e''), Inr (Some ''PIN?''), Inr None] 1 []"
      and ?w1.0 = "heldWorld [Inr (Some ''e''), Inr (Some ''PIN?''), Inr None] 1 []"
      and p = "examplePort 0" and ws = "[]" and echo = "Some ''e''"
      and first = "Some ''PIN?''" and rest = "[Inr None]", OF _ _ _ _ _ refl]
    executeCommand_no_response [where c = exampleConstants and options = noOptions
      and opts = "executeCommandDefaultOptions exampleConstants" and command = "''totp ls''"
      and w = "heldWorld [Inr (Some ''e''), Inr None, Inr (Some ''e''), Inr (Some ''ok>>> '')] 2 []"
      and ?w1.0 = "heldWorld [Inr (Some ''e''), Inr None, Inr (Some ''e''), Inr (Some ''ok>>> '')] 2 []"
      and p = "examplePort 0" and ws = "[None]" and echo = "Some ''e''"
      and first = "None" and rest = "[Inr (Some ''e''), Inr (Some ''ok>>> '')]", OF _ _ _ _ _ refl]
  by (simp add: example_defs option_defs includesStr_def startsWith_def commandEndOutputSignRegex_def
      commandEndSignForRegex_def escapeStringRegexp_def numeral_2_eq_2)

text \<open>
  The claim C5 as it is written gives \<^verbatim>\<open>null\<close> for an execution in which no response was
  obtained. When the main read gives no text, or the empty text, the client sends the
  command again, and the caller gets what the next attempt collects.
\<close>

theorem executeCommand_empty_read_is_not_null:
  "returned (executeCommand exampleConstants ''totp ls'' noOptions
      (heldWorld [Inr (Some ''e''), Inr None, Inr (Some ''e''), Inr (Some ''ok>>> '')] 2 []))
     = Some (Some ''ok'')
   \<and> returned (executeCommand exampleConstants ''totp ls'' noOptions
      (heldWorld [Inr (Some ''e''), Inr (Some []), Inr (Some ''e''), Inr (Some ''ok>>> '')] 2 []))
     = Some (Some ''ok'')
   \<and> filter (\<lambda>a. a = Delay 1000 \<or> a = WriteAndDrain (examplePort 0) ''totp ls'')
       (trace (final (executeCommand exampleConstants ''totp ls'' noOptions
          (heldWorld [Inr (Some ''e''), Inr None, Inr (Some ''e''), Inr (Some ''ok>>> '')] 2 []))))
     = [WriteAndDrain (examplePort 0) ''totp ls'', Delay 1000,
        WriteAndDrain (examplePort 0) ''totp ls'']"
  by (simp add: example_defs option_defs sanitize_defs execute_defs quiet_defs Let_def
      commandEndOutputSignRegex_def commandEndSignForRegex_def escapeStringRegexp_def numeral_2_eq_2)

section \<open>The device locator and the end of a session\<close>



text \<open>
  Claim C9. \<^verbatim>\<open>close\<close> with no transport held emits \<^verbatim>\<open>closed\<close> once and returns. With
  a transport held it first closes the transport: when that succeeds, it emits
  \<^verbatim>\<open>closed\<close> once and returns, and the transport is open no more; when that fails,
  \<^verbatim>\<open>close\<close> raises the error of \<^verbatim>\<open>closeAsync\<close> and emits nothing, for lines 151 to 157
  have no \<^verbatim>\<open>try\<close>.
\<close>

theorem close_emits_closed:
  "(serialPort w = None \<longrightarrow>
        returned (close w) = Some ()
      \<and> trace (final (close w)) = trace w @ [Emit TotpEventNameClose])
   \<and> (\<forall>p cs. serialPort w = Some p \<and> closes w = None # cs \<longrightarrow>
        returned (close w) = Some ()
      \<and> trace (final (close w)) = trace w @ [ClosePort p, Emit TotpEventNameClose]
      \<and> p \<notin> set (live (final (close w))))
   \<and> (\<forall>p e cs. serialPort w = Some p \<and> closes w = Some e # cs \<longrightarrow>
        raised (close w) = Some e
      \<and> trace (final (close w)) = trace w @ [ClosePort p])"
  by (auto simp: close_def closeAsync_def Let_def perform_def emit_def settle_def hangup_def
      portClosed_def split: list.splits)

theorem close_emits_closed_witness:
  "returned (close (idleWorld [] [] [] [])) = Some ()
   \<and> trace (final (close (idleWorld [] [] [] []))) = [Emit TotpEventNameClose]
   \<and> returned (close (heldWorld [] 0 [None])) = Some ()
   \<and> trace (final (close (heldWorld [] 0 [None]))) =
       [ClosePort (examplePort 0), Emit TotpEventNameClose]
   \<and> serialPort (final (close (heldWorld [] 0 [None]))) = None
   \<and> raised (close (heldWorld [] 0 [Some (Failure ''busy'')])) = Some (Failure ''busy'')"
  using close_emits_closed [of "idleWorld [] [] [] []"] close_emits_closed [of "heldWorld [] 0 [None]"]
    close_emits_closed [of "heldWorld [] 0 [Some (Failure ''busy'')]"]
  by (simp add: example_defs close_def closeAsync_def portClosed_def quiet_defs Let_def)

text \<open>
  The claim C9 as it is written lets \<^verbatim>\<open>close\<close> emit \<^verbatim>\<open>closed\<close> and raise nothing in
  every state of the client. A client whose transport cannot be closed gets the error
  of \<^verbatim>\<open>closeAsync\<close>, and no event.
\<close>

theorem close_raises_when_transport_does_not_close:
  "close (heldWorld [] 0 [Some (Failure ''busy'')]) =
     Raised (Failure ''busy'')
       ((heldWorld [] 0 [])\<lparr>trace := [ClosePort (examplePort 0)]\<rparr>)
   \<and> Emit TotpEventNameClose \<notin> set (trace (final (close (heldWorld [] 0 [Some (Failure ''busy'')]))))"
  by (simp add: example_defs close_def closeAsync_def quiet_defs Let_def)

section \<open>The end marker inside the response\<close>

text \<open>\<open>t\<close> occurs in \<open>s\<close> at position \<open>i\<close>.\<close>

definition occursAt :: "string \<Rightarrow> nat \<Rightarrow> string \<Rightarrow> bool" where
  "occursAt t i s = (i \<le> length s \<and> startsWith (drop i s) t)"

lemma indexOf_least:
  "indexOf s t = Some i \<Longrightarrow> occursAt t i s \<and> (\<forall>j<i. \<not> occursAt t j s)"
proof (induction s arbitrary: i)
  case Nil
  then show ?case by (auto simp: occursAt_def startsWith_def split: if_splits)
next
  case (Cons x xs)
  show ?case
  proof (cases "startsWith (x # xs) t")
    case True
    with Cons.prems show ?thesis by (simp add: occursAt_def)
  next
    case False
    with Cons.prems obtain i' where i': "indexOf xs t = Some i'" "i = Suc i'"
      by auto
    from Cons.IH [OF i'(1)] have ih: "occursAt t i' xs" "\<forall>j<i'. \<not> occursAt t j xs" by auto
    have "\<not> occursAt t j (x # xs)" if "j < i" for j
    proof (cases j)
      case 0
      with False show ?thesis by (simp add: occursAt_def)
    next
      case (Suc j')
      with that i'(2) ih(2) show ?thesis by (simp add: occursAt_def)
    qed
    with ih(1) i'(2) show ?thesis by (simp add: occursAt_def)
  qed
qed

lemma replaceString_first:
  assumes "indexOf r m = Some i"
  shows "replaceString r m = take i r @ drop (i + length m) r"
  using assms by (simp add: replaceString_def)

lemma occursAt_later:
  assumes "indexOf r m = Some i" and "i + length m \<le> k" and "occursAt m k r"
  shows "occursAt m (k - length m) (replaceString r m)"
proof -
  have i: "i \<le> length r" using indexOf_least [OF assms(1)] by (simp add: occursAt_def)
  have k: "k \<le> length r" using assms(3) by (simp add: occursAt_def)
  have "drop (k - length m) (take i r @ drop (i + length m) r) = drop k r"
    using assms(2) i by (simp add: min_def)
  moreover have "k - length m \<le> length (take i r @ drop (i + length m) r)"
    using assms(2) i k by simp
  ultimately show ?thesis
    using assms(1,3) by (simp add: replaceString_def occursAt_def)
qed


text \<open>
  A character that neither pattern of the later steps can take: no word character, no
  white space, not the escape character and not the opening bracket. A marker is like a
  prompt when it is one or more such characters and then one space, as \<^verbatim>\<open>>>> \<close> is.
\<close>

definition inertChar :: "char \<Rightarrow> bool" where
  "inertChar ch = (\<not> isWordChar ch \<and> \<not> isSpace ch \<and> ch \<noteq> ESC \<and> ch \<noteq> CHR ''['')"

definition promptLike :: "string \<Rightarrow> bool" where
  "promptLike m = (m \<noteq> [] \<and> last m = CHR '' '' \<and> butlast m \<noteq> [] \<and> list_all inertChar (butlast m))"

lemma inertChar_facts:
  "inertChar ch \<Longrightarrow> ch \<noteq> ESC"
  "inertChar ch \<Longrightarrow> ch \<noteq> CHR '' ''"
  "inertChar ch \<Longrightarrow> ch \<noteq> CR"
  "inertChar ch \<Longrightarrow> ch \<noteq> LF"
  "inertChar ch \<Longrightarrow> \<not> isLineTerminator ch"
  "inertChar ch \<Longrightarrow> \<not> isWordChar ch"
  "inertChar ch \<Longrightarrow> \<not> isSpace ch"
  "inertChar ch \<Longrightarrow> ch \<noteq> CHR ''[''"
proof -
  have sp: "isSpace (CHR '' '')" "isSpace CR" "isSpace LF"
    by (simp_all add: isSpace_def)
  show "inertChar ch \<Longrightarrow> ch \<noteq> ESC" "inertChar ch \<Longrightarrow> \<not> isWordChar ch"
    "inertChar ch \<Longrightarrow> \<not> isSpace ch" "inertChar ch \<Longrightarrow> ch \<noteq> CHR ''[''"
    by (simp_all add: inertChar_def)
  show "inertChar ch \<Longrightarrow> ch \<noteq> CHR '' ''" "inertChar ch \<Longrightarrow> ch \<noteq> CR" "inertChar ch \<Longrightarrow> ch \<noteq> LF"
    using sp by (auto simp: inertChar_def)
  then show "inertChar ch \<Longrightarrow> \<not> isLineTerminator ch"
    by (auto simp: isLineTerminator_def)
qed

lemma space_not_word [simp]: "\<not> isWordChar (CHR '' '')"
  by (simp add: isWordChar_def)

lemma controlMatch_inert:
  assumes "inertChar x"
  shows "controlMatch prev (x # r) = None"
proof -
  have "escapeSequence (x # r) = None"
    using inertChar_facts(1) [OF assms] by (simp add: escapeSequence_def startsWith_def)
  moreover have "eraseSequence prev (x # r) = None"
    using inertChar_facts(2) [OF assms] by (simp add: eraseSequence_def)
  ultimately show ?thesis by (simp add: controlMatch_def)
qed

lemma replaceControl_inert:
  "list_all inertChar xs \<Longrightarrow> xs \<noteq> [] \<Longrightarrow>
     replaceControl prev (xs @ rest) = xs @ replaceControl (Some (last xs)) rest"
proof (induction xs arbitrary: prev)
  case Nil
  then show ?case by simp
next
  case (Cons x xs)
  then have x: "controlMatch prev (x # xs @ rest) = None"
    by (simp add: controlMatch_inert)
  show ?case
  proof (cases "xs = []")
    case True
    with x show ?thesis by simp
  next
    case False
    with Cons x show ?thesis by simp
  qed
qed

lemma controlMatch_space:
  assumes "inertChar l"
  shows "controlMatch (Some l) (CHR '' '' # r) = None"
proof -
  have "escapeSequence (CHR '' '' # r) = None"
    by (simp add: escapeSequence_def startsWith_def)
  moreover have "eraseSequence (Some l) (CHR '' '' # r) = None"
    using inertChar_facts(6) [OF assms]
    by (simp add: eraseSequence_def wordBoundary_def isWordOpt_def)
  ultimately show ?thesis by (simp add: controlMatch_def)
qed

lemma replaceControl_prompt:
  assumes "promptLike m"
  shows "replaceControl prev (m @ post) = m @ replaceControl (Some (CHR '' '')) post"
proof -
  from assms obtain xs where m: "m = xs @ [CHR '' '']" and xs: "xs \<noteq> []" "list_all inertChar xs"
    unfolding promptLike_def by (metis append_butlast_last_id)
  from xs have l: "inertChar (last xs)"
    by (simp add: list_all_iff)
  have "replaceControl prev (xs @ CHR '' '' # post)
      = xs @ replaceControl (Some (last xs)) (CHR '' '' # post)"
    using xs by (simp add: replaceControl_inert)
  also have "replaceControl (Some (last xs)) (CHR '' '' # post)
      = CHR '' '' # replaceControl (Some (CHR '' '')) post"
    using controlMatch_space [OF l] by simp
  finally show ?thesis using m by simp
qed


lemma takeWhile_covers:
  assumes "\<And>x. x \<in> set a \<Longrightarrow> P x"
  shows "length a \<le> length (takeWhile P (a @ b))"
  using assms by (simp add: takeWhile_append2)

lemma word_not_inert: "isWordChar ch \<Longrightarrow> \<not> inertChar ch"
  by (simp add: inertChar_def)

lemma digit_is_word: "isDigit ch \<Longrightarrow> isWordChar ch"
  by (simp add: isDigit_def isWordChar_def Let_def)

lemma escapeSequence_span:
  assumes "escapeSequence (c # t) = Some (Suc n)"
  shows "n \<le> length (takeWhile (\<lambda>ch. \<not> inertChar ch) t)"
proof -
  from assms obtain rest where t: "t = CHR ''['' # rest" and c: "c = ESC"
    by (cases t) (auto simp: escapeSequence_def startsWith_def split: if_splits)
  let ?P = "\<lambda>ch. \<not> inertChar ch"
  let ?ds = "takeWhile isDigit rest"
  have br: "?P (CHR ''['')" by (simp add: inertChar_def)
  have wordm: "isWordChar (CHR ''m'')" "isWordChar (CHR ''A'')" "isWordChar (CHR ''2'')"
    "isWordChar (CHR ''K'')"
    by (simp_all add: isWordChar_def)
  have digits: "\<And>x. x \<in> set ?ds \<Longrightarrow> ?P x"
    by (auto dest!: set_takeWhileD digit_is_word word_not_inert)
  consider (m) "?ds \<noteq> []" "startsWith (drop (length ?ds) rest) ''m''" "n = length ?ds + 2"
    | (A) "startsWith rest ''A''" "n = 2"
    | (K) "startsWith rest ''2K''" "n = 3"
    using assms t c by (auto simp: escapeSequence_def startsWith_def Let_def split: if_splits)
  then have "n - 1 \<le> length (takeWhile ?P rest)"
  proof cases
    case m
    from m(2) obtain tail where d: "drop (length ?ds) rest = CHR ''m'' # tail"
      by (cases "drop (length ?ds) rest") (auto simp: startsWith_def)
    have "rest = ?ds @ drop (length ?ds) rest"
      by (metis append_take_drop_id takeWhile_eq_take)
    with d have r: "rest = (?ds @ ''m'') @ tail" by simp
    have "length (?ds @ ''m'') \<le> length (takeWhile ?P ((?ds @ ''m'') @ tail))"
      by (rule takeWhile_covers) (use digits wordm word_not_inert in auto)
    with r m(3) show ?thesis by (metis One_nat_def add_2_eq_Suc' diff_Suc_1 length_append_singleton)
  next
    case A
    then obtain tail where "rest = CHR ''A'' # tail"
      by (cases rest) (auto simp: startsWith_def)
    with A(2) wordm word_not_inert show ?thesis by simp
  next
    case K
    then obtain tail where "rest = CHR ''2'' # CHR ''K'' # tail"
      by (cases rest; cases "tl rest") (auto simp: startsWith_def)
    with K(2) wordm word_not_inert show ?thesis by simp
  qed
  with t br show ?thesis by simp
qed

lemma eraseSequence_span:
  assumes "eraseSequence prev (c # t) = Some (Suc n)"
  shows "n \<le> length (takeWhile (\<lambda>ch. \<not> inertChar ch) t)"
proof -
  have cr: "\<not> inertChar CR" by (simp add: inertChar_def isSpace_def)
  from assms have "n = 0 \<or> (n = 1 \<and> startsWith t [CR])"
    by (auto simp: eraseSequence_def split: if_splits)
  then show ?thesis
  proof
    assume "n = 0" then show ?thesis by simp
  next
    assume "n = 1 \<and> startsWith t [CR]"
    then obtain tail where "t = CR # tail" "n = 1"
      by (cases t) (auto simp: startsWith_def)
    with cr show ?thesis by simp
  qed
qed

lemma controlMatch_span:
  assumes "controlMatch prev (c # t) = Some (Suc n)"
  shows "n \<le> length (takeWhile (\<lambda>ch. \<not> inertChar ch) t)"
  using assms escapeSequence_span [of c t n] eraseSequence_span [of prev c t n]
  by (auto simp: controlMatch_def split: option.splits)

lemma takeWhile_stops:
  assumes "\<not> P x"
  shows "length (takeWhile P (pre @ x # tail)) \<le> length pre"
proof -
  have "takeWhile P (pre @ x # tail) = takeWhile P pre"
  proof (cases "\<forall>y \<in> set pre. P y")
    case True
    with assms show ?thesis by (simp add: takeWhile_append2 takeWhile_eq_all_conv [THEN iffD2])
  next
    case False
    then show ?thesis by (auto simp: takeWhile_append1)
  qed
  then show ?thesis by (simp add: length_takeWhile_le)
qed

lemma promptLike_head:
  assumes "promptLike m"
  obtains x tail where "m = x # tail" and "inertChar x"
proof -
  from assms obtain xs where m: "m = xs @ [CHR '' '']" and xs: "xs \<noteq> []" "list_all inertChar xs"
    unfolding promptLike_def by (metis append_butlast_last_id)
  then obtain x xs' where "xs = x # xs'" by (cases xs) auto
  with m xs that show ?thesis by simp
qed

lemma subseq_drop_left: "subseq u (drop n s) \<Longrightarrow> subseq u s"
  by (metis append_take_drop_id list_emb_append2)

lemma replaceControl_keeps_prompt:
  assumes "promptLike m"
  shows "\<exists>u. replaceControl prev (pre @ m @ post) = u @ m @ replaceControl (Some (CHR '' '')) post
           \<and> subseq u pre"
proof (induction "length pre" arbitrary: pre prev rule: less_induct)
  case less
  show ?case
  proof (cases pre)
    case Nil
    with replaceControl_prompt [OF assms, of prev post] show ?thesis by simp
  next
    case (Cons c pre')
    from promptLike_head [OF assms] obtain x tail where m: "m = x # tail" and x: "inertChar x" .
    show ?thesis
    proof (cases "\<exists>n. controlMatch prev (c # pre' @ m @ post) = Some (Suc n)")
      case True
      then obtain n where n: "controlMatch prev (c # pre' @ m @ post) = Some (Suc n)" ..
      from controlMatch_span [OF n] m x
      have "n \<le> length pre'"
        using takeWhile_stops [of "\<lambda>ch. \<not> inertChar ch" x pre' "tail @ post"] by simp
      then have d: "drop n (pre' @ m @ post) = drop n pre' @ m @ post" by simp
      have "length (drop n pre') < length pre" using Cons by simp
      from less [OF this] obtain u where
        u: "replaceControl (Some (last (take (Suc n) (c # pre' @ m @ post)))) (drop n pre' @ m @ post)
           = u @ m @ replaceControl (Some (CHR '' '')) post" and s: "subseq u (drop n pre')" by blast
      from subseq_drop_left [OF s] have "subseq u (c # pre')" by (rule list_emb_Cons)
      with u n d Cons show ?thesis by simp
    next
      case False
      then have r: "replaceControl prev (c # pre' @ m @ post)
          = c # replaceControl (Some c) (pre' @ m @ post)"
        by (cases "controlMatch prev (c # pre' @ m @ post)")
          (auto split: nat.splits)
      have "length pre' < length pre" using Cons by simp
      from less [OF this] obtain u where
        u: "replaceControl (Some c) (pre' @ m @ post) = u @ m @ replaceControl (Some (CHR '' '')) post"
        and s: "subseq u pre'"
        by blast
      from u r Cons have "replaceControl prev (pre @ m @ post)
          = (c # u) @ m @ replaceControl (Some (CHR '' '')) post" by simp
      moreover from s Cons have "subseq (c # u) pre" by simp
      ultimately show ?thesis by blast
    qed
  qed
qed


lemma space_chars: "isSpace CR" "isSpace LF" "isSpace (CHR '' '')"
  by (simp_all add: isSpace_def)

lemma blankTail_span:
  assumes "blankTail s = Some j"
  shows "j \<le> length (takeWhile isSpace s)"
proof -
  let ?r = "if startsWith s [CR] then 1 else 0 :: nat"
  let ?n1 = "if startsWith (drop ?r s) [LF] then 1 else 0 :: nat"
  have "?r + ?n1 \<le> length (takeWhile isSpace s)"
  proof (cases s)
    case Nil
    then show ?thesis by (simp add: startsWith_def)
  next
    case (Cons a s')
    show ?thesis
    proof (cases "a = CR")
      case True
      with Cons show ?thesis
        by (cases s') (auto simp: startsWith_def space_chars)
    next
      case False
      with Cons show ?thesis
        by (auto simp: startsWith_def space_chars)
    qed
  qed
  moreover have "j \<le> ?r + ?n1"
    using assms by (auto simp: blankTail_def Let_def startsWith_def split: if_splits)
  ultimately show ?thesis by linarith
qed

lemma takeWhile_drop_run:
  assumes "k \<le> length (takeWhile P s)"
  shows "length (takeWhile P (drop k s)) = length (takeWhile P s) - k"
proof -
  have s: "s = takeWhile P s @ dropWhile P s" by simp
  have "drop k s = drop k (takeWhile P s) @ dropWhile P s"
    using assms drop_append [of k "takeWhile P s" "dropWhile P s"] by simp
  moreover have "takeWhile P (drop k (takeWhile P s) @ dropWhile P s) = drop k (takeWhile P s)"
  proof -
    have "\<And>x. x \<in> set (drop k (takeWhile P s)) \<Longrightarrow> P x"
      by (meson in_set_dropD set_takeWhileD)
    moreover have "takeWhile P (dropWhile P s) = []"
    proof (cases "dropWhile P s")
      case Nil
      then show ?thesis by (metis takeWhile.simps(1))
    next
      case (Cons a as)
      with hd_dropWhile [of P s] have "\<not> P a" by simp
      with Cons show ?thesis by simp
    qed
    ultimately show ?thesis by (simp add: takeWhile_append2)
  qed
  ultimately show ?thesis by simp
qed

lemma blankBacktrack_span:
  assumes "k \<le> length (takeWhile isSpace s)" and "blankBacktrack k s = Some n"
  shows "n \<le> length (takeWhile isSpace s)"
  using assms
proof (induction k)
  case 0
  then show ?case by (simp add: blankTail_span)
next
  case (Suc k)
  show ?case
  proof (cases "blankTail (drop (Suc k) s)")
    case None
    with Suc show ?thesis by simp
  next
    case (Some j)
    with Suc.prems(2) have n: "n = Suc k + j" by simp
    from blankTail_span [OF Some] takeWhile_drop_run [OF Suc.prems(1)]
    have "j \<le> length (takeWhile isSpace s) - Suc k" by simp
    with n Suc.prems(1) show ?thesis by simp
  qed
qed

lemma blankMatch_span:
  "blankMatch prev s = Some n \<Longrightarrow> n \<le> length (takeWhile isSpace s)"
  by (auto simp: blankMatch_def split: if_splits intro: blankBacktrack_span)

lemma replaceBlank_passes:
  assumes "\<not> isSpace x"
  shows "replaceBlank prev (x # r) = x # replaceBlank (Some x) r"
proof (cases "blankMatch prev (x # r)")
  case None
  then show ?thesis by simp
next
  case (Some n)
  from blankMatch_span [OF this] assms have "n = 0" by simp
  with Some show ?thesis by simp
qed

lemma replaceBlank_inert:
  "list_all inertChar xs \<Longrightarrow> xs \<noteq> [] \<Longrightarrow>
     replaceBlank prev (xs @ rest) = xs @ replaceBlank (Some (last xs)) rest"
proof (induction xs arbitrary: prev)
  case Nil
  then show ?case by simp
next
  case (Cons x xs)
  from Cons.prems have "inertChar x" by simp
  then have x: "replaceBlank prev (x # xs @ rest) = x # replaceBlank (Some x) (xs @ rest)"
    by (intro replaceBlank_passes inertChar_facts(7))
  show ?case
  proof (cases "xs = []")
    case True
    with x show ?thesis by simp
  next
    case False
    with Cons x show ?thesis by simp
  qed
qed

lemma replaceBlank_prompt:
  assumes "promptLike m"
  shows "replaceBlank prev (m @ post) = m @ replaceBlank (Some (CHR '' '')) post"
proof -
  from assms obtain xs where m: "m = xs @ [CHR '' '']" and xs: "xs \<noteq> []" "list_all inertChar xs"
    unfolding promptLike_def by (metis append_butlast_last_id)
  from xs have l: "inertChar (last xs)"
    by (simp add: list_all_iff)
  have "blankMatch (Some (last xs)) (CHR '' '' # post) = None"
    using inertChar_facts(5) [OF l] by (simp add: blankMatch_def atLineStart_def)
  then have "replaceBlank (Some (last xs)) (CHR '' '' # post)
      = CHR '' '' # replaceBlank (Some (CHR '' '')) post"
    by simp
  moreover have "replaceBlank prev (xs @ CHR '' '' # post)
      = xs @ replaceBlank (Some (last xs)) (CHR '' '' # post)"
    using xs by (simp add: replaceBlank_inert)
  ultimately show ?thesis using m by simp
qed

lemma replaceBlank_keeps_prompt:
  assumes "promptLike m"
  shows "\<exists>u. replaceBlank prev (pre @ m @ post) = u @ m @ replaceBlank (Some (CHR '' '')) post
           \<and> subseq u pre"
proof (induction "length pre" arbitrary: pre prev rule: less_induct)
  case less
  show ?case
  proof (cases pre)
    case Nil
    with replaceBlank_prompt [OF assms, of prev post] show ?thesis by simp
  next
    case (Cons c pre')
    from promptLike_head [OF assms] obtain x tail where m: "m = x # tail" and x: "inertChar x" .
    show ?thesis
    proof (cases "\<exists>n. blankMatch prev (c # pre' @ m @ post) = Some (Suc n)")
      case True
      then obtain n where n: "blankMatch prev (c # pre' @ m @ post) = Some (Suc n)" ..
      from blankMatch_span [OF n] m inertChar_facts(7) [OF x]
      have "Suc n \<le> length (c # pre')"
        using takeWhile_stops [of isSpace x "c # pre'" "tail @ post"] by simp
      then have d: "drop n (pre' @ m @ post) = drop n pre' @ m @ post" by simp
      have "length (drop n pre') < length pre" using Cons by simp
      from less [OF this] obtain u where
        u: "replaceBlank (Some (last (take (Suc n) (c # pre' @ m @ post)))) (drop n pre' @ m @ post)
           = u @ m @ replaceBlank (Some (CHR '' '')) post" and s: "subseq u (drop n pre')" by blast
      from subseq_drop_left [OF s] have "subseq u (c # pre')" by (rule list_emb_Cons)
      with u n d Cons show ?thesis by simp
    next
      case False
      then have r: "replaceBlank prev (c # pre' @ m @ post)
          = c # replaceBlank (Some c) (pre' @ m @ post)"
        by (cases "blankMatch prev (c # pre' @ m @ post)")
          (auto split: nat.splits)
      have "length pre' < length pre" using Cons by simp
      from less [OF this] obtain u where
        u: "replaceBlank (Some c) (pre' @ m @ post) = u @ m @ replaceBlank (Some (CHR '' '')) post"
        and s: "subseq u pre'"
        by blast
      from u r Cons have "replaceBlank prev (pre @ m @ post)
          = (c # u) @ m @ replaceBlank (Some (CHR '' '')) post" by simp
      moreover from s Cons have "subseq (c # u) pre" by simp
      ultimately show ?thesis by blast
    qed
  qed
qed


lemma occursAt_split:
  assumes "occursAt m k s"
  shows "s = take k s @ m @ drop (k + length m) s"
proof -
  from assms have "take (length m) (drop k s) = m"
    by (simp add: occursAt_def startsWith_def)
  then have "drop k s = m @ drop (length m) (drop k s)"
    by (metis append_take_drop_id)
  then have "drop k s = m @ drop (k + length m) s"
    by (simp add: add.commute)
  then show ?thesis
    by (metis append_take_drop_id)
qed

text \<open>
  What lines 125 and 129 make of the text behind an occurrence of a marker that is like
  a prompt: the two patterns meet that text behind a space.
\<close>

definition afterMarker :: "ExecuteCommandOptions \<Rightarrow> string \<Rightarrow> string" where
  "afterMarker opts post =
     (let v = (if trimTerminalControlCommands opts then replaceControl (Some (CHR '' '')) post else post)
      in if trimEmptyLines opts then replaceBlank (Some (CHR '' '')) v else v)"

lemma sanitize_keeps_prompt:
  assumes "promptLike m" and "s = pre @ m @ post"
  shows "\<exists>u. (if trimEmptyLines opts
                 then replaceBlank None (if trimTerminalControlCommands opts then replaceControl None s else s)
                 else (if trimTerminalControlCommands opts then replaceControl None s else s))
           = u @ m @ afterMarker opts post \<and> subseq u pre"
proof -
  let ?s2 = "if trimTerminalControlCommands opts then replaceControl None s else s"
  let ?v = "if trimTerminalControlCommands opts then replaceControl (Some (CHR '' '')) post else post"
  have "\<exists>u. ?s2 = u @ m @ ?v \<and> subseq u pre"
  proof (cases "trimTerminalControlCommands opts")
    case True
    from replaceControl_keeps_prompt [OF assms(1), of None pre post] assms(2) True
    show ?thesis by simp
  next
    case False
    with assms(2) have "?s2 = pre @ m @ ?v \<and> subseq pre pre" by simp
    then show ?thesis by blast
  qed
  then obtain u where s2: "?s2 = u @ m @ ?v" and u: "subseq u pre" by blast
  show ?thesis
  proof (cases "trimEmptyLines opts")
    case True
    from replaceBlank_keeps_prompt [OF assms(1), of None u ?v] obtain u' where
      "replaceBlank None (u @ m @ ?v) = u' @ m @ replaceBlank (Some (CHR '' '')) ?v"
      and "subseq u' u" by blast
    with s2 u True
    have "(if trimEmptyLines opts then replaceBlank None ?s2 else ?s2) = u' @ m @ afterMarker opts post
        \<and> subseq u' pre"
      by (auto simp: afterMarker_def Let_def intro: subseq_order.trans)
    then show ?thesis by blast
  next
    case False
    with s2 u have "(if trimEmptyLines opts then replaceBlank None ?s2 else ?s2) = u @ m @ afterMarker opts post
        \<and> subseq u pre"
      by (simp add: afterMarker_def Let_def)
    then show ?thesis by blast
  qed
qed

lemma afterMarker_Nil [simp]: "afterMarker opts [] = []"
  by (simp add: afterMarker_def)

lemma drop_through:
  assumes "a \<le> k" and "k \<le> length r"
  shows "drop a r = drop a (take k r) @ drop k r"
proof -
  have "drop a (take k r @ drop k r) = drop a (take k r) @ drop (a - length (take k r)) (drop k r)"
    by (rule drop_append)
  with assms show ?thesis by (simp add: min_def)
qed

lemma occursAt_nth:
  assumes "occursAt m i r" and "j < length m"
  shows "r ! (i + j) = m ! j"
proof -
  from assms(1) have t: "take (length m) (drop i r) = m" and i: "i \<le> length r"
    by (simp_all add: occursAt_def startsWith_def)
  have "m ! j = take (length m) (drop i r) ! j" using t by simp
  also have "\<dots> = drop i r ! j" using assms(2) by simp
  also have "\<dots> = r ! (i + j)" using i by simp
  finally show ?thesis by simp
qed

lemma promptLike_apart:
  assumes "promptLike m" and "occursAt m i r" and "occursAt m k r" and "i < k"
  shows "i + length m \<le> k"
proof (rule ccontr)
  assume "\<not> i + length m \<le> k"
  then have near: "k < i + length m" by simp
  from assms(1) obtain xs where m: "m = xs @ [CHR '' '']" and xs: "xs \<noteq> []" "list_all inertChar xs"
    unfolding promptLike_def by (metis append_butlast_last_id)
  let ?j = "i + length xs - k"
  have j: "?j < length xs" using assms(4) near m by simp
  have "r ! (i + length xs) = CHR '' ''"
    using occursAt_nth [OF assms(2), of "length xs"] m by simp
  moreover have "r ! (k + ?j) = m ! ?j"
    using occursAt_nth [OF assms(3), of ?j] j m by simp
  moreover have "k + ?j = i + length xs" using near m by simp
  moreover have "m ! ?j = xs ! ?j" using j m by (simp add: nth_append)
  moreover have "inertChar (xs ! ?j)" using xs(2) j by (simp add: list_all_length)
  ultimately show False using inertChar_facts(2) by metis
qed

text \<open>
  Claim C10. For a string marker, line 121 removes the occurrence that \<^verbatim>\<open>indexOf\<close>
  finds, the earliest one, and nothing else: every occurrence that starts behind the
  removed one is still there, \<open>length m\<close> positions to the left. A marker that is like
  a prompt, as \<^verbatim>\<open>>>> \<close> is, cannot overlap itself, and the two later steps leave it
  alone, whatever the options: for every later occurrence, the returned text is what is
  left of the text before that occurrence, then the marker, then what the later steps
  make of the text behind it. A marker that ended the response ends the returned text.
\<close>

theorem replaceEndSign_first_occurrence_only:
  assumes "indexOf r m = Some i"
  shows "occursAt m i r \<and> (\<forall>j<i. \<not> occursAt m j r)
    \<and> replaceEndSign r (Str m) = take i r @ drop (i + length m) r
    \<and> (\<forall>k. i + length m \<le> k \<and> occursAt m k r \<longrightarrow>
          occursAt m (k - length m) (replaceEndSign r (Str m)))
    \<and> (promptLike m \<and> commandEndSign opts = Str m \<and> r \<noteq> []
         \<and> \<not> includesStr r (TotpCommandCancelled c) \<longrightarrow>
        (\<forall>k. i < k \<and> occursAt m k r \<longrightarrow>
            i + length m \<le> k
          \<and> (\<exists>u. postProcess c opts (Some r) = Some (u @ m @ afterMarker opts (drop (k + length m) r))
                \<and> subseq u (if trimCommandEndSignature opts
                             then take i r @ drop (i + length m) (take k r) else take k r))
          \<and> (k + length m = length r \<longrightarrow> afterMarker opts (drop (k + length m) r) = [])))"
proof -
  have first: "replaceEndSign r (Str m) = take i r @ drop (i + length m) r"
    using assms by (simp add: replaceEndSign_def replaceString_def)
  have later: "occursAt m (k - length m) (replaceEndSign r (Str m))"
    if "i + length m \<le> k" "occursAt m k r" for k
    using occursAt_later [OF assms that] by (simp add: replaceEndSign_def)
  have apart: "i + length m \<le> k" if "promptLike m" "i < k" "occursAt m k r" for k
    using promptLike_apart [OF that(1) _ that(3,2)] indexOf_least [OF assms] by blast
  have returned: "\<exists>u. postProcess c opts (Some r) = Some (u @ m @ afterMarker opts (drop (k + length m) r))
                \<and> subseq u (if trimCommandEndSignature opts
                             then take i r @ drop (i + length m) (take k r) else take k r)"
    if k: "i + length m \<le> k" "occursAt m k r"
      and p: "promptLike m" "commandEndSign opts = Str m" "r \<noteq> []"
         "\<not> includesStr r (TotpCommandCancelled c)" for k
  proof -
    let ?r1 = "if trimCommandEndSignature opts then replaceEndSign r (commandEndSign opts) else r"
    let ?pre = "if trimCommandEndSignature opts
                then take i r @ drop (i + length m) (take k r) else take k r"
    have kl: "k \<le> length r" using k(2) by (simp add: occursAt_def)
    have tail: "drop k r = m @ drop (k + length m) r"
      using occursAt_split [OF k(2)] kl by (metis append_eq_conv_conj length_take min.absorb2)
    have r1: "?r1 = ?pre @ m @ drop (k + length m) r"
    proof (cases "trimCommandEndSignature opts")
      case True
      have "drop (i + length m) r = drop (i + length m) (take k r) @ drop k r"
        using k(1) kl by (rule drop_through)
      with tail first True p(2) show ?thesis by simp
    next
      case False
      with tail show ?thesis by (metis append_take_drop_id)
    qed
    from sanitize_keeps_prompt [OF p(1) r1, of opts] obtain u where
      uv: "(if trimEmptyLines opts
         then replaceBlank None (if trimTerminalControlCommands opts then replaceControl None ?r1 else ?r1)
         else (if trimTerminalControlCommands opts then replaceControl None ?r1 else ?r1))
          = u @ m @ afterMarker opts (drop (k + length m) r)"
      and s: "subseq u ?pre" by blast
    have "postProcess c opts (Some r) = Some (u @ m @ afterMarker opts (drop (k + length m) r))"
      using p(3,4) uv by (simp add: postProcess_def Let_def split: if_splits)
    with s show ?thesis by blast
  qed
  have prompt: "i + length m \<le> k
          \<and> (\<exists>u. postProcess c opts (Some r) = Some (u @ m @ afterMarker opts (drop (k + length m) r))
                \<and> subseq u (if trimCommandEndSignature opts
                             then take i r @ drop (i + length m) (take k r) else take k r))
          \<and> (k + length m = length r \<longrightarrow> afterMarker opts (drop (k + length m) r) = [])"
    if "promptLike m" "commandEndSign opts = Str m" "r \<noteq> []"
       "\<not> includesStr r (TotpCommandCancelled c)" "i < k" "occursAt m k r" for k
    using apart [OF that(1,5,6)]
      returned [OF apart [OF that(1,5,6)] that(6) that(1-4)] by simp
  from indexOf_least [OF assms] first later prompt show ?thesis by blast
qed

theorem replaceEndSign_first_occurrence_only_witness:
  "indexOf (''a>>> b'' @ [CR, LF] @ ''>>> '') ''>>> '' = Some 1
   \<and> replaceEndSign (''a>>> b'' @ [CR, LF] @ ''>>> '') (Str ''>>> '') = ''ab'' @ [CR, LF] @ ''>>> ''
   \<and> occursAt ''>>> '' 4 (replaceEndSign (''a>>> b'' @ [CR, LF] @ ''>>> '') (Str ''>>> ''))
   \<and> (\<exists>u. postProcess exampleConstants (executeCommandDefaultOptions exampleConstants)
             (Some (''a>>> b'' @ [CR, LF] @ ''>>> '')) = Some (u @ ''>>> '')
          \<and> subseq u (''ab'' @ [CR, LF]))"
proof -
  have i: "indexOf (''a>>> b'' @ [CR, LF] @ ''>>> '') ''>>> '' = Some 1"
    by (simp add: startsWith_def)
  have k: "occursAt ''>>> '' 8 (''a>>> b'' @ [CR, LF] @ ''>>> '')"
    by (simp add: occursAt_def startsWith_def)
  have p: "promptLike ''>>> ''"
    by (simp add: promptLike_def inertChar_def isWordChar_def isSpace_def)
  have n: "\<not> includesStr (''a>>> b'' @ [CR, LF] @ ''>>> '') (TotpCommandCancelled exampleConstants)"
    by (simp add: exampleConstants_def includesStr_def startsWith_def)
  note t = replaceEndSign_first_occurrence_only [OF i,
      of "executeCommandDefaultOptions exampleConstants" exampleConstants]
  from t [THEN conjunct2, THEN conjunct2, THEN conjunct1]
  have first: "replaceEndSign (''a>>> b'' @ [CR, LF] @ ''>>> '') (Str ''>>> '') = ''ab'' @ [CR, LF] @ ''>>> ''"
    by simp
  from t [THEN conjunct2, THEN conjunct2, THEN conjunct2, THEN conjunct1, THEN spec, of 8] k
  have later: "occursAt ''>>> '' 4 (replaceEndSign (''a>>> b'' @ [CR, LF] @ ''>>> '') (Str ''>>> ''))"
    by simp
  from t [THEN conjunct2, THEN conjunct2, THEN conjunct2, THEN conjunct2] p n
  have "\<forall>k. 1 < k \<and> occursAt ''>>> '' k (''a>>> b'' @ [CR, LF] @ ''>>> '') \<longrightarrow>
          (\<exists>u. postProcess exampleConstants (executeCommandDefaultOptions exampleConstants)
                 (Some (''a>>> b'' @ [CR, LF] @ ''>>> ''))
               = Some (u @ ''>>> '' @ afterMarker (executeCommandDefaultOptions exampleConstants)
                    (drop (k + length ''>>> '') (''a>>> b'' @ [CR, LF] @ ''>>> '')))
             \<and> subseq u (take 1 (''a>>> b'' @ [CR, LF] @ ''>>> '')
                  @ drop (1 + length ''>>> '') (take k (''a>>> b'' @ [CR, LF] @ ''>>> ''))))"
    by (simp add: executeCommandDefaultOptions_def exampleConstants_def)
  from this [THEN spec, of 8] k
  have "\<exists>u. postProcess exampleConstants (executeCommandDefaultOptions exampleConstants)
             (Some (''a>>> b'' @ [CR, LF] @ ''>>> '')) = Some (u @ ''>>> '')
          \<and> subseq u (''ab'' @ [CR, LF])"
    by simp
  with i first later show ?thesis by simp
qed


text \<open>
  The claim C10 as it is written keeps every later occurrence in the returned text, for
  every string marker. In \<^verbatim>\<open>aaa\<close> the marker \<^verbatim>\<open>aa\<close> occurs at 0 and at 1; with the
  first occurrence the second one goes too. And of \<^verbatim>\<open>a\r\nb\r\n\<close>, with a line
  break as the marker, the first line break is removed as the marker, and of the last
  one the blank line pattern takes the line feed.
\<close>

theorem later_marker_can_be_lost:
  "indexOf ''aaa'' ''aa'' = Some 0 \<and> occursAt ''aa'' 1 ''aaa''
   \<and> postProcess exampleConstants
        ((executeCommandDefaultOptions exampleConstants)\<lparr>commandEndSign := Str ''aa''\<rparr>)
        (Some ''aaa'') = Some ''a''
   \<and> \<not> includesStr ''a'' ''aa''
   \<and> indexOf (''a'' @ [CR, LF] @ ''b'' @ [CR, LF]) [CR, LF] = Some 1
   \<and> occursAt [CR, LF] 4 (''a'' @ [CR, LF] @ ''b'' @ [CR, LF])
   \<and> postProcess exampleConstants
       ((executeCommandDefaultOptions exampleConstants)\<lparr>commandEndSign := Str [CR, LF]\<rparr>)
       (Some (''a'' @ [CR, LF] @ ''b'' @ [CR, LF])) = Some (''ab'' @ [CR])
   \<and> \<not> includesStr (''ab'' @ [CR]) [CR, LF]"
  by (simp add: example_defs option_defs sanitize_defs occursAt_def)

section \<open>One live transport at a time\<close>

text \<open>
  The environment closes every transport that the client asks it to close: the script
  has no failing \<^verbatim>\<open>closeAsync\<close>.
\<close>

definition closesSucceed :: "world \<Rightarrow> bool" where
  "closesSucceed w = list_all (\<lambda>r. r = None) (closes w)"

text \<open>No transport is held and none is open.\<close>

definition unconnected :: "world \<Rightarrow> bool" where
  "unconnected w = (closesSucceed w \<and> serialPort w = None \<and> live w = [])"

text \<open>
  Inside a round of the loop of \<^verbatim>\<open>#getSerialPort\<close>: no transport is held, and the
  transport of this round is the only one that can be open.
\<close>

definition connecting :: "serial_port \<Rightarrow> world \<Rightarrow> bool" where
  "connecting p w = (closesSucceed w \<and> serialPort w = None \<and> (live w = [] \<or> live w = [p]))"

text \<open>Between two calls: a transport that is open is the one in the field.\<close>

definition single :: "world \<Rightarrow> bool" where
  "single w =
     (closesSucceed w \<and> (live w = [] \<or> (\<exists>p. live w = [p] \<and> serialPort w = Some p)))"

text \<open>
  At every point, also where a call waits for ever: at most one transport is open, and
  with a transport in the field it is that one.
\<close>

definition atMostOne :: "world \<Rightarrow> bool" where
  "atMostOne w =
     (closesSucceed w
      \<and> (live w = [] \<or> (\<exists>p. live w = [p] \<and> (serialPort w = None \<or> serialPort w = Some p))))"

text \<open>
  What holds of the world when an asynchronous function returns, when it raises, and
  when it waits for ever.
\<close>

definition ends ::
  "('a \<Rightarrow> world \<Rightarrow> bool) \<Rightarrow> (world \<Rightarrow> bool) \<Rightarrow> (world \<Rightarrow> bool) \<Rightarrow> 'a outcome \<Rightarrow> bool" where
  "ends R E P m = (case m of Returned x w \<Rightarrow> R x w | Raised e w \<Rightarrow> E w | Pending w \<Rightarrow> P w)"

lemma ends_simps [simp]:
  "ends R E P (Returned x w) = R x w" "ends R E P (Raised e w) = E w" "ends R E P (Pending w) = P w"
  by (simp_all add: ends_def)

lemma ends_andThen:
  assumes "ends R' E P m" and "\<And>x w. m = Returned x w \<Longrightarrow> R' x w \<Longrightarrow> ends R E P (f x w)"
  shows "ends R E P (andThen m f)"
  using assms by (cases m) simp_all

lemma ends_tryCatch:
  assumes "ends R E' P m" and "\<And>e w. E' w \<Longrightarrow> ends R E P (h e w)"
  shows "ends R E P (tryCatch m h)"
  using assms by (cases m) simp_all

lemma ends_weaken:
  assumes "ends R E P m" and "\<And>x w. R x w \<Longrightarrow> R' x w" and "\<And>w. E w \<Longrightarrow> E' w"
    and "\<And>w. P w \<Longrightarrow> P' w"
  shows "ends R' E' P' m"
  using assms by (cases m) simp_all

lemma unconnected_single: "unconnected w \<Longrightarrow> single w"
  by (simp add: unconnected_def single_def)

lemma unconnected_connecting: "unconnected w \<Longrightarrow> connecting p w"
  by (simp add: unconnected_def connecting_def)

lemma connecting_atMostOne: "connecting p w \<Longrightarrow> atMostOne w"
  by (auto simp: connecting_def atMostOne_def)

lemma single_atMostOne: "single w \<Longrightarrow> atMostOne w"
  by (auto simp: single_def atMostOne_def)

lemma unconnected_atMostOne: "unconnected w \<Longrightarrow> atMostOne w"
  by (simp add: unconnected_def atMostOne_def)

lemma closesSucceed_perform [simp]: "closesSucceed (perform a w) = closesSucceed w"
  by (simp add: closesSucceed_def perform_def)

lemma closesSucceed_updates [simp]:
  "closesSucceed (w\<lparr>lists := ls\<rparr>) = closesSucceed w" "closesSucceed (w\<lparr>opens := os\<rparr>) = closesSucceed w"
  "closesSucceed (w\<lparr>reads := rs\<rparr>) = closesSucceed w" "closesSucceed (w\<lparr>writes := ws\<rparr>) = closesSucceed w"
  "closesSucceed (w\<lparr>live := l\<rparr>) = closesSucceed w" "closesSucceed (w\<lparr>serialPort := f\<rparr>) = closesSucceed w"
  "closesSucceed (w\<lparr>fresh := n\<rparr>) = closesSucceed w" "closesSucceed (w\<lparr>observed := ob\<rparr>) = closesSucceed w"
  "closesSucceed (w\<lparr>drops := ds\<rparr>) = closesSucceed w" "closesSucceed (w\<lparr>trace := tr\<rparr>) = closesSucceed w"
  by (simp_all add: closesSucceed_def)

lemma closesSucceed_hangup [simp]: "closesSucceed (hangup w) = closesSucceed w"
  by (simp add: closesSucceed_def hangup_def)

lemma closesSucceed_settle [simp]: "closesSucceed (settle w) = closesSucceed w"
  by (simp add: settle_def split: list.splits)

lemma closesSucceed_next:
  "closesSucceed w \<Longrightarrow> closes w = r # rs \<Longrightarrow> r = None \<and> closesSucceed (w\<lparr>closes := rs\<rparr>)"
  by (simp add: closesSucceed_def)

lemma unconnected_updates [simp]:
  "unconnected (w\<lparr>lists := ls\<rparr>) = unconnected w" "unconnected (w\<lparr>opens := os\<rparr>) = unconnected w"
  "unconnected (w\<lparr>reads := rs\<rparr>) = unconnected w" "unconnected (w\<lparr>writes := ws\<rparr>) = unconnected w"
  "unconnected (w\<lparr>drops := ds\<rparr>) = unconnected w" "unconnected (w\<lparr>trace := tr\<rparr>) = unconnected w"
  "unconnected (w\<lparr>fresh := n\<rparr>) = unconnected w" "unconnected (w\<lparr>observed := ob\<rparr>) = unconnected w"
  by (simp_all add: unconnected_def)

lemma connecting_updates [simp]:
  "connecting p (w\<lparr>lists := ls\<rparr>) = connecting p w" "connecting p (w\<lparr>opens := os\<rparr>) = connecting p w"
  "connecting p (w\<lparr>reads := rs\<rparr>) = connecting p w" "connecting p (w\<lparr>writes := ws\<rparr>) = connecting p w"
  "connecting p (w\<lparr>drops := ds\<rparr>) = connecting p w" "connecting p (w\<lparr>trace := tr\<rparr>) = connecting p w"
  "connecting p (w\<lparr>fresh := n\<rparr>) = connecting p w" "connecting p (w\<lparr>observed := ob\<rparr>) = connecting p w"
  by (simp_all add: connecting_def)

lemma single_updates [simp]:
  "single (w\<lparr>lists := ls\<rparr>) = single w" "single (w\<lparr>opens := os\<rparr>) = single w"
  "single (w\<lparr>reads := rs\<rparr>) = single w" "single (w\<lparr>writes := ws\<rparr>) = single w"
  "single (w\<lparr>drops := ds\<rparr>) = single w" "single (w\<lparr>trace := tr\<rparr>) = single w"
  "single (w\<lparr>fresh := n\<rparr>) = single w" "single (w\<lparr>observed := ob\<rparr>) = single w"
  by (simp_all add: single_def)

lemma perform_keeps [simp]:
  "unconnected (perform a w) = unconnected w" "connecting p (perform a w) = connecting p w"
  "single (perform a w) = single w"
  by (simp_all add: perform_def)

lemma unconnected_hangup: "unconnected w \<Longrightarrow> unconnected (hangup w)"
  by (simp add: unconnected_def hangup_def)

lemma connecting_hangup: "connecting p w \<Longrightarrow> connecting p (hangup w)"
  by (simp add: connecting_def hangup_def)

lemma single_hangup: "single w \<Longrightarrow> single (hangup w)"
  by (auto simp: single_def hangup_def)

lemma unconnected_settle: "unconnected w \<Longrightarrow> unconnected (settle w)"
  by (simp add: settle_def unconnected_hangup split: list.splits)

lemma connecting_settle: "connecting p w \<Longrightarrow> connecting p (settle w)"
  by (simp add: settle_def connecting_hangup split: list.splits)

lemma single_settle: "single w \<Longrightarrow> single (settle w)"
  by (simp add: settle_def single_hangup split: list.splits)

lemma closes_keeps:
  assumes "closes w = r # rs"
  shows "unconnected w \<Longrightarrow> unconnected (w\<lparr>closes := rs\<rparr>)"
    and "connecting p w \<Longrightarrow> connecting p (w\<lparr>closes := rs\<rparr>)"
    and "single w \<Longrightarrow> single (w\<lparr>closes := rs\<rparr>)"
    and "closesSucceed w \<Longrightarrow> r = None"
  using assms by (simp_all add: unconnected_def connecting_def single_def closesSucceed_def)

lemma unconnected_steps:
  assumes "unconnected w"
  shows "unconnected (emit e w)" and "unconnected (delay ms w)"
    and "ends (\<lambda>x. unconnected) unconnected unconnected (SerialPort_list w)"
  using assms
  by (simp_all add: emit_def delay_def SerialPort_list_def Let_def unconnected_settle
      split: list.splits sum.splits)

lemma single_portClosed: "single w \<Longrightarrow> single (portClosed p w)"
  by (auto simp: single_def portClosed_def)

lemma single_steps:
  assumes "single w"
  shows "single (emit e w)" and "single (delay ms w)"
    and "ends (\<lambda>x. single) single single (readUntil p t d w)"
    and "ends (\<lambda>x. single) single single (writeAndDrain p s w)"
    and "ends (\<lambda>x. single) single single (closeAsync p w)"
  using assms
  by (simp_all add: emit_def delay_def readUntil_def writeAndDrain_def closeAsync_def Let_def
      single_settle single_portClosed closes_keeps(3)
      split: list.splits sum.splits option.splits)

lemma unconnected_open:
  assumes "unconnected w"
  shows "ends (\<lambda>x. connecting p) unconnected unconnected (openAsync p (allocate w))"
proof -
  have "connecting p ((settle w')\<lparr>live := p # live (settle w')\<rparr>)" if "unconnected w'" for w'
    using unconnected_settle [OF that] by (simp add: unconnected_def connecting_def)
  with assms show ?thesis
    by (simp add: openAsync_def allocate_def Let_def unconnected_settle
        split: list.splits option.splits)
qed

lemma connecting_portClosed: "connecting p w \<Longrightarrow> unconnected (portClosed p w)"
  by (auto simp: connecting_def unconnected_def portClosed_def)

lemma connecting_steps:
  assumes "connecting p w"
  shows "ends (\<lambda>x. connecting p) (connecting p) (connecting p) (readUntil p t d w)"
    and "ends (\<lambda>x. unconnected) (\<lambda>w. False) (connecting p) (closeAsync p w)"
  using assms
  by (simp_all add: readUntil_def closeAsync_def Let_def connecting_settle connecting_portClosed
      closes_keeps(2) split: list.splits sum.splits option.splits)
    (auto dest: closes_keeps(4) simp: connecting_def)

lemma waitForFlipperZeroDevice_unconnected:
  "unconnected w \<Longrightarrow>
     ends (\<lambda>x. unconnected) unconnected unconnected (waitForFlipperZeroDevice c w)"
proof (induction c w rule: waitForFlipperZeroDevice.induct)
  case (1 c w)
  have g: "ends (\<lambda>x. unconnected) unconnected unconnected (getFlipperZeroDevice c w)"
    unfolding getFlipperZeroDevice_def
    by (rule ends_andThen [OF unconnected_steps(3) [OF "1.prems"]]) simp
  show ?case
  proof (subst waitForFlipperZeroDevice.simps, rule ends_andThen [OF g])
    fix x w1
    assume r: "getFlipperZeroDevice c w = Returned x w1" and u: "unconnected w1"
    show "ends (\<lambda>x. unconnected) unconnected unconnected
            (case x of None \<Rightarrow> waitForFlipperZeroDevice c (delay 1000 w1) | Some d \<Rightarrow> Returned d w1)"
    proof (cases x)
      case None
      with "1.IH" [OF r None unconnected_steps(2) [OF u]] show ?thesis by simp
    next
      case (Some d)
      with u show ?thesis by simp
    qed
  qed
qed

text \<open>The world after a round of the loop, by what the round leaves in the local variable.\<close>

definition attempted :: "serial_port option \<Rightarrow> world \<Rightarrow> bool" where
  "attempted x w = (case x of None \<Rightarrow> unconnected w | Some p \<Rightarrow> connecting p w)"

lemma getSerialPort_attempt_ends:
  assumes "unconnected w"
  shows "ends attempted unconnected atMostOne (getSerialPort_attempt c w)"
  unfolding getSerialPort_attempt_def Let_def
proof (rule ends_andThen [where R' = "\<lambda>x. unconnected"])
  show "ends (\<lambda>x. unconnected) unconnected atMostOne
          (waitForFlipperZeroDevice c (emit TotpEventNameConnecting w))"
    by (rule ends_weaken [OF waitForFlipperZeroDevice_unconnected [OF unconnected_steps(1) [OF assms]]])
      (simp_all add: unconnected_atMostOne)
next
  fix d w1
  assume u: "unconnected w1"
  let ?sp = "newSerialPort (path d) 115200 w1"
  have opened: "ends attempted unconnected atMostOne
      (tryCatch (andThen (openAsync ?sp (allocate w1)) (\<lambda>u w2. Returned (Some ?sp) w2))
         (\<lambda>e w2. Returned None (delay 1000 w2)))"
  proof (rule ends_tryCatch [where E' = unconnected])
    show "ends attempted unconnected atMostOne
            (andThen (openAsync ?sp (allocate w1)) (\<lambda>u w2. Returned (Some ?sp) w2))"
      by (rule ends_andThen [where R' = "\<lambda>x. connecting ?sp"],
          rule ends_weaken [OF unconnected_open [OF u]])
        (simp_all add: unconnected_atMostOne attempted_def)
  next
    fix e w2 assume "unconnected w2"
    then show "ends attempted unconnected atMostOne (Returned None (delay 1000 w2))"
      by (simp add: attempted_def unconnected_steps(2))
  qed
  show "ends attempted unconnected atMostOne
     (andThen
       (tryCatch (andThen (openAsync ?sp (allocate w1)) (\<lambda>u w2. Returned (Some ?sp) w2))
          (\<lambda>e w2. Returned None (delay 1000 w2)))
       (\<lambda>opened w3.
           case opened of
             None \<Rightarrow> Returned None w3
           | Some p \<Rightarrow>
               tryCatch
                 (andThen (readUntil p (Literal (FlipperCliEndOfCommand c)) (Some 1000) w3)
                    (\<lambda>r w4. Returned (Some p) w4))
                 (\<lambda>e w4. andThen (closeAsync p w4) (\<lambda>u w5. Returned None (delay 1000 w5)))))"
  proof (rule ends_andThen [OF opened])
    fix x w3
    assume a: "attempted x w3"
    show "ends attempted unconnected atMostOne
            (case x of
               None \<Rightarrow> Returned None w3
             | Some p \<Rightarrow>
                 tryCatch
                   (andThen (readUntil p (Literal (FlipperCliEndOfCommand c)) (Some 1000) w3)
                      (\<lambda>r w4. Returned (Some p) w4))
                   (\<lambda>e w4. andThen (closeAsync p w4) (\<lambda>u w5. Returned None (delay 1000 w5))))"
    proof (cases x)
      case None
      with a show ?thesis by simp
    next
      case (Some p)
      with a have cp: "connecting p w3" by (simp add: attempted_def)
      have "ends attempted unconnected atMostOne
                (tryCatch
                   (andThen (readUntil p (Literal (FlipperCliEndOfCommand c)) (Some 1000) w3)
                      (\<lambda>r w4. Returned (Some p) w4))
                   (\<lambda>e w4. andThen (closeAsync p w4) (\<lambda>u w5. Returned None (delay 1000 w5))))"
      proof (rule ends_tryCatch [where E' = "connecting p"])
        show "ends attempted (connecting p) atMostOne
                (andThen (readUntil p (Literal (FlipperCliEndOfCommand c)) (Some 1000) w3)
                   (\<lambda>r w4. Returned (Some p) w4))"
          by (rule ends_andThen [where R' = "\<lambda>x. connecting p"],
              rule ends_weaken [OF connecting_steps(1) [OF cp]])
            (simp_all add: connecting_atMostOne attempted_def)
      next
        fix e w4 assume c4: "connecting p w4"
        show "ends attempted unconnected atMostOne
                (andThen (closeAsync p w4) (\<lambda>u w5. Returned None (delay 1000 w5)))"
          by (rule ends_andThen [where R' = "\<lambda>x. unconnected"],
              rule ends_weaken [OF connecting_steps(2) [OF c4]])
            (simp_all add: connecting_atMostOne attempted_def unconnected_steps(2))
      qed
      with Some show ?thesis by simp
    qed
  qed
qed

lemma getSerialPort_loop_ends:
  "unconnected w \<Longrightarrow> ends connecting unconnected atMostOne (getSerialPort_loop c w)"
proof (induction c w rule: getSerialPort_loop.induct)
  case (1 c w)
  show ?case
  proof (subst getSerialPort_loop.simps, rule ends_andThen [OF getSerialPort_attempt_ends [OF "1.prems"]])
    fix x w1
    assume r: "getSerialPort_attempt c w = Returned x w1" and a: "attempted x w1"
    show "ends connecting unconnected atMostOne
            (case x of None \<Rightarrow> getSerialPort_loop c w1 | Some p \<Rightarrow> Returned p w1)"
    proof (cases x)
      case None
      with a have "unconnected w1" by (simp add: attempted_def)
      from "1.IH" [OF r None this] None show ?thesis by simp
    next
      case (Some p)
      with a show ?thesis by (simp add: attempted_def)
    qed
  qed
qed

lemma connecting_store:
  "connecting p w \<Longrightarrow> single (emit TotpEventNameConnected ((onClose p w)\<lparr>serialPort := Some p\<rparr>))"
  by (auto simp: connecting_def single_def emit_def onClose_def perform_def closesSucceed_def)

lemma getSerialPort_ends:
  assumes "single w"
  shows "ends (\<lambda>x. single) single atMostOne (getSerialPort c w)"
proof (cases "serialPort w")
  case (Some p)
  with assms show ?thesis by simp
next
  case None
  with assms have u: "unconnected w" by (auto simp: single_def unconnected_def)
  have "ends (\<lambda>x. single) single atMostOne
          (andThen (getSerialPort_loop c w) (\<lambda>sp w1.
            Returned sp (emit TotpEventNameConnected ((onClose sp w1)\<lparr>serialPort := Some sp\<rparr>))))"
    by (rule ends_andThen [where R' = connecting],
        rule ends_weaken [OF getSerialPort_loop_ends [OF u]])
      (simp_all add: unconnected_single connecting_store)
  with None show ?thesis by (simp add: getSerialPort_def)
qed

lemma executeCommand_attempt_ends:
  assumes "single w"
  shows "ends (\<lambda>x. single) single atMostOne (executeCommand_attempt c opts command w)"
proof -
  note weak = ends_weaken [where R' = "\<lambda>x. single" and E' = single and P' = atMostOne]
  have rd: "ends (\<lambda>x. single) single atMostOne (readUntil p t d w')" if "single w'" for p t d w'
    by (rule weak [OF single_steps(3) [OF that]]) (simp_all add: single_atMostOne)
  have wr: "ends (\<lambda>x. single) single atMostOne (writeAndDrain p s w')" if "single w'" for p s w'
    by (rule weak [OF single_steps(4) [OF that]]) (simp_all add: single_atMostOne)
  show ?thesis
    unfolding executeCommand_attempt_def
    by (assumption | rule ends_andThen [where R' = "\<lambda>x. single"] getSerialPort_ends rd wr assms
          impI conjI
        | simp add: single_steps(1,2) split: if_splits)+
qed

lemma executeCommand_loop_ends:
  "single w \<Longrightarrow> ends (\<lambda>x. single) single atMostOne (executeCommand_loop c opts command w)"
proof (induction c opts command w rule: executeCommand_loop.induct)
  case (1 c opts command w)
  show ?case
  proof (subst executeCommand_loop.simps,
      rule ends_andThen [OF executeCommand_attempt_ends [OF "1.prems"]])
    fix r w1
    assume a: "executeCommand_attempt c opts command w = Returned r w1" and s: "single w1"
    show "ends (\<lambda>x. single) single atMostOne
            (if fst r then Returned (snd r) w1 else executeCommand_loop c opts command w1)"
    proof (cases "fst r")
      case True
      with s show ?thesis by simp
    next
      case False
      with "1.IH" [OF a False s] show ?thesis by simp
    qed
  qed
qed

lemma executeCommand_ends:
  "single w \<Longrightarrow> ends (\<lambda>x. single) single atMostOne (executeCommand c command options w)"
  unfolding executeCommand_def Let_def
  by (rule ends_andThen [OF executeCommand_loop_ends]) simp_all

lemma close_ends:
  assumes "single w"
  shows "ends (\<lambda>x. single) single atMostOne (close w)"
proof (cases "serialPort w")
  case None
  with assms show ?thesis by (simp add: close_def single_steps(1))
next
  case (Some p)
  have "ends (\<lambda>x. single) single atMostOne
          (andThen (closeAsync p w) (\<lambda>u w1. Returned () (emit TotpEventNameClose w1)))"
    by (rule ends_andThen [where R' = "\<lambda>x. single"],
        rule ends_weaken [OF single_steps(5) [OF assms]])
      (simp_all add: single_atMostOne single_steps(1))
  with Some show ?thesis by (simp add: close_def)
qed

lemma ends_final:
  assumes "ends (\<lambda>x. single) single atMostOne m"
  shows "settled m \<Longrightarrow> single (final m)" and "\<not> settled m \<Longrightarrow> atMostOne (final m)"
  using assms by (cases m; simp add: settled_def)+

lemma run_atMostOne: "single w \<Longrightarrow> atMostOne (run c ops w)"
proof (induction c ops w rule: run.induct)
  case (1 c w)
  then show ?case by (simp add: single_atMostOne)
next
  case (2 c ops w)
  note e = ends_final [OF getSerialPort_ends [OF "2.prems", of c]]
  show ?case
  proof (cases "settled (getSerialPort c w)")
    case True
    with "2.IH" [OF refl True e(1) [OF True]] show ?thesis by (simp add: Let_def)
  next
    case False
    with e(2) [OF False] show ?thesis by (simp add: Let_def)
  qed
next
  case (3 c command options ops w)
  note e = ends_final [OF executeCommand_ends [OF "3.prems", of c command options]]
  show ?case
  proof (cases "settled (executeCommand c command options w)")
    case True
    with "3.IH" [OF refl True e(1) [OF True]] show ?thesis by (simp add: Let_def)
  next
    case False
    with e(2) [OF False] show ?thesis by (simp add: Let_def)
  qed
next
  case (4 c ops w)
  note e = ends_final [OF close_ends [OF "4.prems"]]
  show ?case
  proof (cases "settled (close w)")
    case True
    with "4.IH" [OF refl True e(1) [OF True]] show ?thesis by (simp add: Let_def)
  next
    case False
    with e(2) [OF False] show ?thesis by (simp add: Let_def)
  qed
next
  case (5 c ops w)
  from "5.IH" [OF single_hangup [OF "5.prems"]] show ?case by simp
qed

lemma initial_single: "initial w \<Longrightarrow> closesSucceed w \<Longrightarrow> single w"
  by (simp add: initial_def single_def)

text \<open>
  Claim C7. The environment closes every transport the client asks it to close. Then,
  whatever the caller does with a new client, in whatever order, and whatever else the
  environment answers: at every point where the client has finished a call or waits, at
  most one transport is open, and with a transport in the field it is that one. The
  script is arbitrary and can end at any \<^verbatim>\<open>await\<close>, so that the points where the
  client waits include every point at which a call is suspended. With a transport in the field
  \<^verbatim>\<open>#getSerialPort\<close> returns it and does nothing else, so that a transport is made and
  opened only while the field is empty.
\<close>

theorem one_live_transport_at_most:
  assumes "initial w" and "closesSucceed w"
  shows "length (live (run c ops w)) \<le> 1
     \<and> (\<forall>p. serialPort (run c ops w) = Some p \<longrightarrow> set (live (run c ops w)) \<subseteq> {p})
     \<and> (\<forall>w' p. serialPort w' = Some p \<longrightarrow> getSerialPort c w' = Returned p w')"
  using run_atMostOne [OF initial_single [OF assms], of c ops]
  by (auto simp: atMostOne_def)

theorem one_live_transport_at_most_witness:
  "initial (idleWorld [Inr [exampleDevice ''COM3''], Inr [exampleDevice ''COM3'']] [None, None]
              [Inl Timeout, Inr (Some ''>>> '')] [None])
   \<and> closesSucceed (idleWorld [Inr [exampleDevice ''COM3''], Inr [exampleDevice ''COM3'']] [None, None]
              [Inl Timeout, Inr (Some ''>>> '')] [None])
   \<and> live (run exampleConstants [GetTransport]
        (idleWorld [Inr [exampleDevice ''COM3''], Inr [exampleDevice ''COM3'']] [None, None]
              [Inl Timeout, Inr (Some ''>>> '')] [None])) = [examplePort 1]
   \<and> serialPort (run exampleConstants [GetTransport]
        (idleWorld [Inr [exampleDevice ''COM3''], Inr [exampleDevice ''COM3'']] [None, None]
              [Inl Timeout, Inr (Some ''>>> '')] [None])) = Some (examplePort 1)
   \<and> getSerialPort exampleConstants (heldWorld [] 0 []) = Returned (examplePort 0) (heldWorld [] 0 [])"
  using one_live_transport_at_most [of
      "idleWorld [Inr [exampleDevice ''COM3''], Inr [exampleDevice ''COM3'']] [None, None]
              [Inl Timeout, Inr (Some ''>>> '')] [None]"
      exampleConstants "[GetTransport]"]
  by (simp add: initial_def closesSucceed_def example_defs connect_defs quiet_defs settled_def
      Let_def)

text \<open>
  The claim C7 as it is written has at most one live transport after every sequence of
  operations. The probe of the first transport runs into its deadline and the transport
  cannot be closed: line 70 raises, and the transport stays open. The next call finds
  the field empty and opens a second transport.
\<close>

theorem failed_close_leaves_two_live_transports:
  "initial (idleWorld [Inr [exampleDevice ''COM3''], Inr [exampleDevice ''COM3'']] [None, None]
              [Inl Timeout, Inr (Some ''>>> '')] [Some (Failure ''busy'')])
   \<and> live (run exampleConstants [GetTransport, GetTransport]
        (idleWorld [Inr [exampleDevice ''COM3''], Inr [exampleDevice ''COM3'']] [None, None]
              [Inl Timeout, Inr (Some ''>>> '')] [Some (Failure ''busy'')]))
     = [examplePort 1, examplePort 0]
   \<and> serialPort (run exampleConstants [GetTransport, GetTransport]
        (idleWorld [Inr [exampleDevice ''COM3''], Inr [exampleDevice ''COM3'']] [None, None]
              [Inl Timeout, Inr (Some ''>>> '')] [Some (Failure ''busy'')]))
     = Some (examplePort 1)"
  by (simp add: initial_def example_defs connect_defs quiet_defs settled_def Let_def)

end
